theory Spec2Isabelle
  imports Complex_Main
begin

section \<open>Floating-point values\<close>

text \<open>
  The metrics of \<^verbatim>\<open>DatasetsForecast.py\<close> compute on numpy arrays of doubles. A
  double is modelled by its IEEE class: a finite value, one of the two infinities, or
  NaN. Finite arithmetic is exact real arithmetic: rounding, overflow, underflow and
  the sign of zero are not modelled (zero is the positive zero). What the metrics do
  with NaN and the infinities (the subject of the properties below) follows IEEE 754
  as numpy implements it: NaN is absorbing, \<open>inf - inf\<close>, \<open>0 * inf\<close>, \<open>0 / 0\<close> and
  \<open>inf / inf\<close> are NaN, \<open>x / 0\<close> is an infinity with the sign of \<open>x\<close>, and every
  comparison with NaN is false. numpy warns on these operations and does not raise.
\<close>

datatype float = Fin real | PInf | NInf | NaN

fun isnan :: "float \<Rightarrow> bool" where
  "isnan NaN = True"
| "isnan _ = False"

fun isfinite :: "float \<Rightarrow> bool" where
  "isfinite (Fin _) = True"
| "isfinite _ = False"

fun fneg :: "float \<Rightarrow> float" where
  "fneg (Fin x) = Fin (- x)"
| "fneg PInf = NInf"
| "fneg NInf = PInf"
| "fneg NaN = NaN"

fun fadd :: "float \<Rightarrow> float \<Rightarrow> float" where
  "fadd NaN _ = NaN"
| "fadd _ NaN = NaN"
| "fadd (Fin x) (Fin y) = Fin (x + y)"
| "fadd (Fin _) PInf = PInf"
| "fadd (Fin _) NInf = NInf"
| "fadd PInf NInf = NaN"
| "fadd PInf _ = PInf"
| "fadd NInf PInf = NaN"
| "fadd NInf _ = NInf"

definition fsub :: "float \<Rightarrow> float \<Rightarrow> float" where
  "fsub a b = fadd a (fneg b)"

fun fmul :: "float \<Rightarrow> float \<Rightarrow> float" where
  "fmul NaN _ = NaN"
| "fmul _ NaN = NaN"
| "fmul (Fin x) (Fin y) = Fin (x * y)"
| "fmul (Fin x) PInf = (if x = 0 then NaN else if 0 < x then PInf else NInf)"
| "fmul (Fin x) NInf = (if x = 0 then NaN else if 0 < x then NInf else PInf)"
| "fmul PInf (Fin y) = (if y = 0 then NaN else if 0 < y then PInf else NInf)"
| "fmul NInf (Fin y) = (if y = 0 then NaN else if 0 < y then NInf else PInf)"
| "fmul PInf PInf = PInf"
| "fmul PInf NInf = NInf"
| "fmul NInf PInf = NInf"
| "fmul NInf NInf = PInf"

fun fdiv :: "float \<Rightarrow> float \<Rightarrow> float" where
  "fdiv NaN _ = NaN"
| "fdiv _ NaN = NaN"
| "fdiv (Fin x) (Fin y) =
     (if y = 0 then (if x = 0 then NaN else if 0 < x then PInf else NInf)
      else Fin (x / y))"
| "fdiv (Fin _) _ = Fin 0"
| "fdiv PInf (Fin y) = (if 0 \<le> y then PInf else NInf)"
| "fdiv NInf (Fin y) = (if 0 \<le> y then NInf else PInf)"
| "fdiv _ _ = NaN"

fun fabs :: "float \<Rightarrow> float" where
  "fabs (Fin x) = Fin \<bar>x\<bar>"
| "fabs PInf = PInf"
| "fabs NInf = PInf"
| "fabs NaN = NaN"

definition fsquare :: "float \<Rightarrow> float" where
  "fsquare x = fmul x x"

fun fsqrt :: "float \<Rightarrow> float" where
  "fsqrt (Fin x) = (if x < 0 then NaN else Fin (sqrt x))"
| "fsqrt PInf = PInf"
| "fsqrt NInf = NaN"
| "fsqrt NaN = NaN"

text \<open>Comparisons (\<open>==\<close>, \<open><=\<close>, \<open><\<close>): false as soon as one side is NaN.\<close>

fun feq :: "float \<Rightarrow> float \<Rightarrow> bool" where
  "feq NaN _ = False"
| "feq _ NaN = False"
| "feq a b = (a = b)"

fun fle :: "float \<Rightarrow> float \<Rightarrow> bool" where
  "fle NaN _ = False"
| "fle _ NaN = False"
| "fle NInf _ = True"
| "fle _ PInf = True"
| "fle (Fin x) (Fin y) = (x \<le> y)"
| "fle _ _ = False"

definition flt :: "float \<Rightarrow> float \<Rightarrow> bool" where
  "flt a b = (fle a b \<and> \<not> feq a b)"

text \<open>\<^verbatim>\<open>np.maximum\<close>: the larger operand, NaN when either is NaN.\<close>

fun fmaximum :: "float \<Rightarrow> float \<Rightarrow> float" where
  "fmaximum NaN _ = NaN"
| "fmaximum _ NaN = NaN"
| "fmaximum a b = (if fle a b then b else a)"

text \<open>\<^verbatim>\<open>np.sum\<close> over the elements of a lane, and the two means built on it.\<close>

definition fsum :: "float list \<Rightarrow> float" where
  "fsum xs = foldr fadd xs (Fin 0)"

definition fcount :: "'a list \<Rightarrow> float" where
  "fcount xs = Fin (real (length xs))"

definition mean :: "float list \<Rightarrow> float" where
  "mean xs = fdiv (fsum xs) (fcount xs)"

definition nanmean_lane :: "float list \<Rightarrow> float" where
  "nanmean_lane xs = mean (filter (\<lambda>x. \<not> isnan x) xs)"

section \<open>Arrays\<close>

text \<open>
  An \<^verbatim>\<open>ndarray\<close> is its shape and its elements in row-major order. A scalar
  (\<^verbatim>\<open>np.float64\<close>, the result of a full reduction) is the array of shape \<open>[]\<close>.
\<close>

record 'a ndarray =
  shape :: "nat list"
  data :: "'a list"

definition wellformed :: "'a ndarray \<Rightarrow> bool" where
  "wellformed a = (length (data a) = prod_list (shape a))"

definition mk :: "nat list \<Rightarrow> 'a list \<Rightarrow> 'a ndarray" where
  "mk s xs = \<lparr>shape = s, data = xs\<rparr>"

definition amap :: "('a \<Rightarrow> 'b) \<Rightarrow> 'a ndarray \<Rightarrow> 'b ndarray" where
  "amap f a = mk (shape a) (map f (data a))"

datatype error =
  AssertionError string | ZeroDivisionError | AxisError | TypeError | ValueError | IndexError

definition bind :: "error + 'a \<Rightarrow> ('a \<Rightarrow> error + 'b) \<Rightarrow> error + 'b" where
  "bind r f = (case r of Inl e \<Rightarrow> Inl e | Inr v \<Rightarrow> f v)"

subsection \<open>Broadcasting\<close>

text \<open>
  numpy aligns two shapes at their last axes; two extents are compatible when they are
  equal or one of them is 1. Both functions below work on reversed shapes.
  \<open>bidx\<close> maps a flat index of the broadcast result to the flat index of the source
  element it reads.
\<close>

fun broadcast_rev :: "nat list \<Rightarrow> nat list \<Rightarrow> nat list option" where
  "broadcast_rev [] ts = Some ts"
| "broadcast_rev ss [] = Some ss"
| "broadcast_rev (s # ss) (t # ts) =
     (if s = t \<or> t = 1 then map_option ((#) s) (broadcast_rev ss ts)
      else if s = 1 then map_option ((#) t) (broadcast_rev ss ts)
      else None)"

definition broadcast_shapes :: "nat list \<Rightarrow> nat list \<Rightarrow> nat list option" where
  "broadcast_shapes s t = map_option rev (broadcast_rev (rev s) (rev t))"

fun bidx :: "nat list \<Rightarrow> nat list \<Rightarrow> nat \<Rightarrow> nat" where
  "bidx (s # ss) (t # ts) i = (if s = 1 then 0 else i mod t) + s * bidx ss ts (i div t)"
| "bidx _ _ i = 0"

definition broadcast_to :: "nat list \<Rightarrow> 'a ndarray \<Rightarrow> 'a ndarray" where
  "broadcast_to t a =
     mk t (map (\<lambda>i. data a ! bidx (rev (shape a)) (rev t) i) [0..<prod_list t])"

definition binop :: "('a \<Rightarrow> 'b \<Rightarrow> 'c) \<Rightarrow> 'a ndarray \<Rightarrow> 'b ndarray \<Rightarrow> error + 'c ndarray" where
  "binop f a b =
     (case broadcast_shapes (shape a) (shape b) of
        None \<Rightarrow> Inl ValueError
      | Some t \<Rightarrow> Inr (mk t (map2 f (data (broadcast_to t a)) (data (broadcast_to t b)))))"

section \<open>Safe division\<close>

text \<open>
  \<^verbatim>\<open>div = a / b; div[div != div] = 0.0; div[div == float('inf')] = 0.0\<close>.
  The two masked assignments run one after the other on the quotient array. The
  quotient of two zero-dimensional arrays is a numpy scalar, which supports no item
  assignment (\<^verbatim>\<open>TypeError\<close>).
\<close>

definition divide_no_nan :: "float ndarray \<Rightarrow> float ndarray \<Rightarrow> error + float ndarray" where
  "divide_no_nan a b =
     bind (binop fdiv a b) (\<lambda>dv.
       if shape dv = [] then Inl TypeError
       else
         let dv1 = amap (\<lambda>q. if \<not> feq q q then Fin 0 else q) dv;
             dv2 = amap (\<lambda>q. if feq q PInf then Fin 0 else q) dv1
         in Inr dv2)"

section \<open>Reductions\<close>

text \<open>
  An axis is \<^verbatim>\<open>None\<close> (reduce everything to a scalar) or an integer, counted from
  the end when negative; an axis outside the rank raises numpy's \<^verbatim>\<open>AxisError\<close>.
  \<open>lanes\<close> lists, in the row-major order of the reduced array, the elements that
  each result position is reduced from.
\<close>

definition normalize_axis :: "nat \<Rightarrow> int \<Rightarrow> error + nat" where
  "normalize_axis n ax =
     (if - int n \<le> ax \<and> ax < int n then Inr (nat (if ax < 0 then ax + int n else ax))
      else Inl AxisError)"

definition lanes :: "nat list \<Rightarrow> nat \<Rightarrow> 'a list \<Rightarrow> 'a list list" where
  "lanes shp k xs =
     (let outer = prod_list (take k shp); len = shp ! k; inner = prod_list (drop (Suc k) shp)
      in concat (map (\<lambda>out. map (\<lambda>i. map (\<lambda>j. xs ! ((out * len + j) * inner + i)) [0..<len])
                                  [0..<inner])
                     [0..<outer]))"

definition reduce_shape :: "nat list \<Rightarrow> nat \<Rightarrow> nat list" where
  "reduce_shape shp k = take k shp @ drop (Suc k) shp"

definition reduce :: "('a list \<Rightarrow> 'b) \<Rightarrow> int option \<Rightarrow> 'a ndarray \<Rightarrow> error + 'b ndarray" where
  "reduce f axis a =
     (case axis of
        None \<Rightarrow> Inr (mk [] [f (data a)])
      | Some ax \<Rightarrow>
          bind (normalize_axis (length (shape a)) ax) (\<lambda>k.
            Inr (mk (reduce_shape (shape a) k) (map f (lanes (shape a) k (data a))))))"

text \<open>\<^verbatim>\<open>np.nanmean(a, axis)\<close>: NaN entries leave both the sum and the count.\<close>

definition nanmean :: "float ndarray \<Rightarrow> int option \<Rightarrow> error + float ndarray" where
  "nanmean a axis = reduce nanmean_lane axis a"

text \<open>
  \<^verbatim>\<open>np.average(a, weights=w, axis=axis)\<close>. Without weights it is \<^verbatim>\<open>a.mean(axis)\<close>,
  after which numpy divides \<^verbatim>\<open>a.size\<close> by the size of the result and so raises
  \<^verbatim>\<open>ZeroDivisionError\<close> when the result has no element.
  With weights of the shape of \<open>a\<close>, the weights are summed along the axis, a zero sum
  anywhere raises \<^verbatim>\<open>ZeroDivisionError\<close>, and the result is
  \<^verbatim>\<open>(a * w).sum(axis) / w.sum(axis)\<close>. Weights of another shape must be
  one-dimensional with the length of the (given) axis and then weigh every lane.
\<close>

definition weighted_lane :: "float list \<times> float list \<Rightarrow> float" where
  "weighted_lane p = fdiv (fsum (map2 fmul (fst p) (snd p))) (fsum (snd p))"

definition weighted :: "nat list \<Rightarrow> (float list \<times> float list) list \<Rightarrow> error + float ndarray" where
  "weighted s ps =
     (if \<exists>p \<in> set ps. feq (fsum (snd p)) (Fin 0) then Inl ZeroDivisionError
      else Inr (mk s (map weighted_lane ps)))"

definition np_average ::
  "float ndarray \<Rightarrow> float ndarray option \<Rightarrow> int option \<Rightarrow> error + float ndarray" where
  "np_average a weights axis =
     (case weights of
        None \<Rightarrow>
          bind (reduce mean axis a) (\<lambda>avg.
            if prod_list (shape avg) = 0 then Inl ZeroDivisionError else Inr avg)
      | Some w \<Rightarrow>
          if shape a = shape w then
            (case axis of
               None \<Rightarrow> weighted [] [(data a, data w)]
             | Some ax \<Rightarrow>
                 bind (normalize_axis (length (shape a)) ax) (\<lambda>k.
                   weighted (reduce_shape (shape a) k)
                     (zip (lanes (shape a) k (data a)) (lanes (shape a) k (data w)))))
          else
            (case axis of
               None \<Rightarrow> Inl TypeError
             | Some ax \<Rightarrow>
                 bind (normalize_axis (length (shape a)) ax) (\<lambda>k.
                   if length (shape w) \<noteq> 1 then Inl TypeError
                   else if shape w \<noteq> [shape a ! k] then Inl ValueError
                   else weighted (reduce_shape (shape a) k)
                          (map (\<lambda>l. (l, data w)) (lanes (shape a) k (data a))))))"

text \<open>
  Boolean-mask indexing \<^verbatim>\<open>a[mask]\<close>: the selected elements as a one-dimensional
  array, whatever the rank of \<open>a\<close>; a mask of another shape raises \<^verbatim>\<open>IndexError\<close>.
\<close>

definition mask_index :: "'a ndarray \<Rightarrow> bool ndarray \<Rightarrow> error + 'a ndarray" where
  "mask_index a m =
     (if shape a \<noteq> shape m then Inl IndexError
      else let sel = map fst (filter snd (zip (data a) (data m)))
           in Inr (mk [length sel] sel))"

section \<open>Weight validation\<close>

text \<open>The shape as Python prints a tuple: \<^verbatim>\<open>()\<close>, \<^verbatim>\<open>(3,)\<close>, \<^verbatim>\<open>(2, 3)\<close>.\<close>

fun show_nat :: "nat \<Rightarrow> string" where
  "show_nat n =
     (if n < 10 then [char_of (48 + n)] else show_nat (n div 10) @ [char_of (48 + n mod 10)])"

fun show_dims :: "nat list \<Rightarrow> string" where
  "show_dims [] = []"
| "show_dims [d] = show_nat d"
| "show_dims (d # ds) = show_nat d @ '', '' @ show_dims ds"

definition show_shape :: "nat list \<Rightarrow> string" where
  "show_shape s =
     (if length s = 1 then ''('' @ show_dims s @ '',)'' else ''('' @ show_dims s @ '')'')"

definition metric_protections ::
  "float ndarray \<Rightarrow> float ndarray \<Rightarrow> float ndarray option \<Rightarrow> error + unit" where
  "metric_protections y y_hat weights =
     (case weights of
        None \<Rightarrow> Inr ()
      | Some w \<Rightarrow>
          if \<not> flt (Fin 0) (fsum (data w)) then Inl (AssertionError ''Sum of weights cannot be 0'')
          else if shape w \<noteq> shape y then
            Inl (AssertionError (''Wrong weight dimension weights.shape '' @ show_shape (shape w)
                   @ '', y.shape '' @ show_shape (shape y)))
          else Inr ())"

section \<open>Point-forecast metrics\<close>

definition notnan_mask :: "float ndarray \<Rightarrow> bool ndarray" where
  "notnan_mask a = amap (\<lambda>x. \<not> isnan x) a"

text \<open>The reduction shared by \<^verbatim>\<open>mae\<close>, \<^verbatim>\<open>mse\<close> and \<^verbatim>\<open>quantile_loss\<close>.\<close>

definition nan_reduce ::
  "float ndarray \<Rightarrow> float ndarray option \<Rightarrow> int option \<Rightarrow> error + float ndarray" where
  "nan_reduce v weights axis =
     (case weights of
        Some w \<Rightarrow>
          bind (mask_index v (notnan_mask v)) (\<lambda>vm.
          bind (mask_index w (notnan_mask v)) (\<lambda>wm.
            np_average vm (Some wm) axis))
      | None \<Rightarrow> nanmean v axis)"

definition mae ::
  "float ndarray \<Rightarrow> float ndarray \<Rightarrow> float ndarray option \<Rightarrow> int option \<Rightarrow> error + float ndarray" where
  "mae y y_hat weights axis =
     bind (metric_protections y y_hat weights) (\<lambda>_.
     bind (binop fsub y y_hat) (\<lambda>d.
       let delta_y = amap fabs d in nan_reduce delta_y weights axis))"

definition mse ::
  "float ndarray \<Rightarrow> float ndarray \<Rightarrow> float ndarray option \<Rightarrow> int option \<Rightarrow> error + float ndarray" where
  "mse y y_hat weights axis =
     bind (metric_protections y y_hat weights) (\<lambda>_.
     bind (binop fsub y y_hat) (\<lambda>d.
       let delta_y = amap fsquare d in nan_reduce delta_y weights axis))"

definition rmse ::
  "float ndarray \<Rightarrow> float ndarray \<Rightarrow> float ndarray option \<Rightarrow> int option \<Rightarrow> error + float ndarray" where
  "rmse y y_hat weights axis = bind (mse y y_hat weights axis) (\<lambda>m. Inr (amap fsqrt m))"

definition mape ::
  "float ndarray \<Rightarrow> float ndarray \<Rightarrow> float ndarray option \<Rightarrow> int option \<Rightarrow> error + float ndarray" where
  "mape y y_hat weights axis =
     bind (metric_protections y y_hat weights) (\<lambda>_.
     bind (binop fsub y y_hat) (\<lambda>d.
       let delta_y = amap fabs d; scale = amap fabs y in
       bind (divide_no_nan delta_y scale) (\<lambda>r.
       bind (np_average r weights axis) (\<lambda>m.
         Inr (amap (fmul (Fin 100)) m)))))"

text \<open>
  After the average, \<^verbatim>\<open>smape\<close> asserts its upper bound. A scalar result
  (\<^verbatim>\<open>isinstance(smape, float)\<close>) is compared directly. Otherwise the builtin
  \<^verbatim>\<open>all\<close> iterates over the first axis of \<^verbatim>\<open>smape <= 200\<close> and takes the truth
  value of each item: an item that is not a single element has no truth value
  (\<^verbatim>\<open>ValueError\<close>).
\<close>

definition py_all :: "bool ndarray \<Rightarrow> error + bool" where
  "py_all b =
     (if prod_list (tl (shape b)) = 1 then Inr (list_all (\<lambda>x. x) (data b))
      else if hd (shape b) = 0 then Inr True
      else Inl ValueError)"

definition smape ::
  "float ndarray \<Rightarrow> float ndarray \<Rightarrow> float ndarray option \<Rightarrow> int option \<Rightarrow> error + float ndarray" where
  "smape y y_hat weights axis =
     bind (metric_protections y y_hat weights) (\<lambda>_.
     bind (binop fsub y y_hat) (\<lambda>d.
     bind (binop fadd (amap fabs y) (amap fabs y_hat)) (\<lambda>scale.
       let delta_y = amap fabs d in
       bind (divide_no_nan delta_y scale) (\<lambda>r.
       bind (np_average r weights axis) (\<lambda>m.
         let s = amap (fmul (Fin 200)) m in
         if shape s = [] then
           (if list_all (\<lambda>x. fle x (Fin 200)) (data s) then Inr s
            else Inl (AssertionError ''SMAPE should be lower than 200''))
         else
           bind (py_all (amap (\<lambda>x. fle x (Fin 200)) s)) (\<lambda>ok.
             if ok then Inr s
             else Inl (AssertionError ''SMAPE should be lower than 200'')))))))"

section \<open>Scaled and relative metrics\<close>

text \<open>
  A slice \<^verbatim>\<open>a[start:stop]\<close> of the first axis, with Python's clamping of the two
  bounds; a scalar cannot be sliced.
\<close>

definition slice_bound :: "nat \<Rightarrow> int \<Rightarrow> nat" where
  "slice_bound n i = nat (if i < 0 then max 0 (int n + i) else min i (int n))"

definition slice0 :: "'a ndarray \<Rightarrow> nat \<Rightarrow> nat \<Rightarrow> error + 'a ndarray" where
  "slice0 a start stop =
     (case shape a of
        [] \<Rightarrow> Inl IndexError
      | n # rest \<Rightarrow>
          let inner = prod_list rest; len = stop - start
          in Inr (mk (len # rest) (take (len * inner) (drop (start * inner) (data a)))))"

definition mase ::
  "float ndarray \<Rightarrow> float ndarray \<Rightarrow> float ndarray \<Rightarrow> int \<Rightarrow> float ndarray option \<Rightarrow> int option
     \<Rightarrow> error + float ndarray" where
  "mase y y_hat y_train seasonality weights axis =
     bind (binop fsub y y_hat) (\<lambda>d.
     bind (np_average (amap fabs d) weights axis) (\<lambda>delta_y.
       let n = (case shape y_train of [] \<Rightarrow> 0 | n # _ \<Rightarrow> n) in
       bind (slice0 y_train 0 (slice_bound n (- seasonality))) (\<lambda>head.
       bind (slice0 y_train (slice_bound n seasonality) n) (\<lambda>tail.
       bind (binop fsub head tail) (\<lambda>sd.
       bind (np_average (amap fabs sd) None axis) (\<lambda>scale.
         binop fdiv delta_y scale))))))"

definition rmae ::
  "float ndarray \<Rightarrow> float ndarray \<Rightarrow> float ndarray \<Rightarrow> float ndarray option \<Rightarrow> int option
     \<Rightarrow> error + float ndarray" where
  "rmae y y_hat1 y_hat2 weights axis =
     bind (mae y y_hat1 weights axis) (\<lambda>numerator.
     bind (mae y y_hat2 weights axis) (\<lambda>denominator.
       binop fdiv numerator denominator))"

section \<open>Quantile metrics\<close>

definition pinball :: "float \<Rightarrow> float \<Rightarrow> float" where
  "pinball q d = fmaximum (fmul q d) (fmul (fsub q (Fin 1)) d)"

definition quantile_loss ::
  "float ndarray \<Rightarrow> float ndarray \<Rightarrow> float \<Rightarrow> float ndarray option \<Rightarrow> int option
     \<Rightarrow> error + float ndarray" where
  "quantile_loss y y_hat q weights axis =
     bind (metric_protections y y_hat weights) (\<lambda>_.
     bind (binop fsub y y_hat) (\<lambda>delta_y.
       let loss = amap (pinball q) delta_y in nan_reduce loss weights axis))"

definition ones :: "nat list \<Rightarrow> float ndarray" where
  "ones s = mk s (replicate (prod_list s) (Fin 1))"

definition expand_dims_last :: "'a ndarray \<Rightarrow> 'a ndarray" where
  "expand_dims_last a = mk (shape a @ [1]) (data a)"

definition repeat_last :: "nat \<Rightarrow> 'a ndarray \<Rightarrow> 'a ndarray" where
  "repeat_last n a =
     mk (butlast (shape a) @ [last (shape a) * n]) (concat (map (replicate n) (data a)))"

definition mqloss ::
  "float ndarray \<Rightarrow> float ndarray \<Rightarrow> float list \<Rightarrow> float ndarray option \<Rightarrow> int option
     \<Rightarrow> error + float ndarray" where
  "mqloss y y_hat quantiles weights axis =
     (let w = (case weights of None \<Rightarrow> ones (shape y) | Some w \<Rightarrow> w) in
      bind (metric_protections y y_hat (Some w)) (\<lambda>_.
        let n_q = length quantiles;
            qs = mk [n_q] quantiles;
            y_rep = expand_dims_last y in
        bind (binop fsub y_rep y_hat) (\<lambda>err.
        bind (binop fmul qs err) (\<lambda>lo.
        bind (binop fmul (amap (\<lambda>q. fsub q (Fin 1)) qs) err) (\<lambda>hi.
        bind (binop fmaximum lo hi) (\<lambda>l.
          let w_rep = repeat_last n_q (expand_dims_last w)
          in np_average l (Some w_rep) axis))))))"

text \<open>\<^verbatim>\<open>np.finfo(float).eps\<close> is \<open>2\<^sup>-\<^sup>5\<^sup>2\<close>.\<close>

definition eps :: float where
  "eps = Fin (1 / 2 ^ 52)"

definition scaled_crps ::
  "float ndarray \<Rightarrow> float ndarray \<Rightarrow> float list \<Rightarrow> float ndarray option \<Rightarrow> int option
     \<Rightarrow> error + float ndarray" where
  "scaled_crps y y_hat quantiles weights axis =
     (let norm = fsum (data (amap fabs y)) in
      bind (mqloss y y_hat quantiles weights axis) (\<lambda>loss.
        Inr (amap (\<lambda>l. fdiv (fmul (fmul (Fin 2) l) (fsum (data (ones (shape y)))))
                             (fadd norm eps)) loss)))"

section \<open>Interval metrics\<close>

text \<open>The mean of a boolean array counts \<^verbatim>\<open>True\<close> as 1 and \<^verbatim>\<open>False\<close> as 0.\<close>

definition bool_mean :: "bool ndarray \<Rightarrow> float" where
  "bool_mean b = mean (map (\<lambda>x. if x then Fin 1 else Fin 0) (data b))"

definition coverage :: "float ndarray \<Rightarrow> float ndarray \<Rightarrow> float ndarray \<Rightarrow> error + float" where
  "coverage y y_hat_lo y_hat_hi =
     bind (binop (\<lambda>a b. fle b a) y y_hat_lo) (\<lambda>ge.
     bind (binop fle y y_hat_hi) (\<lambda>le.
     bind (binop (\<and>) ge le) (\<lambda>both.
       Inr (fmul (Fin 100) (bool_mean both)))))"

definition calibration :: "float ndarray \<Rightarrow> float ndarray \<Rightarrow> error + float" where
  "calibration y y_hat_hi = bind (binop fle y y_hat_hi) (\<lambda>le. Inr (bool_mean le))"

section \<open>Properties: auxiliary notions\<close>

text \<open>Weights that the validator rejects, and the message of the assertion that fails.\<close>

definition invalid_weights :: "float ndarray \<Rightarrow> float ndarray \<Rightarrow> bool" where
  "invalid_weights y w = (\<not> flt (Fin 0) (fsum (data w)) \<or> shape w \<noteq> shape y)"

definition precondition_message :: "float ndarray \<Rightarrow> float ndarray \<Rightarrow> string" where
  "precondition_message y w =
     (if \<not> flt (Fin 0) (fsum (data w)) then ''Sum of weights cannot be 0''
      else ''Wrong weight dimension weights.shape '' @ show_shape (shape w)
             @ '', y.shape '' @ show_shape (shape y))"

text \<open>
  For the interval metrics: the indicator of each position, the number of positions
  where it holds, and the number of positions of \<open>y\<close> that are not NaN (what a
  NaN-excluding mean would divide by).
\<close>

definition inside :: "float ndarray \<Rightarrow> float ndarray \<Rightarrow> float ndarray \<Rightarrow> bool list" where
  "inside y lo hi =
     map (\<lambda>i. fle (data lo ! i) (data y ! i) \<and> fle (data y ! i) (data hi ! i))
       [0..<length (data y)]"

definition below :: "float ndarray \<Rightarrow> float ndarray \<Rightarrow> bool list" where
  "below y hi = map (\<lambda>i. fle (data y ! i) (data hi ! i)) [0..<length (data y)]"

definition hits :: "bool list \<Rightarrow> nat" where
  "hits bs = length (filter (\<lambda>b. b) bs)"

definition observed :: "float ndarray \<Rightarrow> nat" where
  "observed y = length (filter (\<lambda>v. \<not> isnan v) (data y))"

text \<open>A value that is not below zero: a finite value from 0 on, \<open>+inf\<close>, or NaN.\<close>

fun not_negative :: "float \<Rightarrow> bool" where
  "not_negative (Fin r) = (0 \<le> r)"
| "not_negative NInf = False"
| "not_negative _ = True"

text \<open>
  The two means of \<^verbatim>\<open>mase\<close>: the (weighted) mean absolute error, and the mean
  absolute difference of the training series with itself shifted by the seasonality.
\<close>

definition mase_numerator ::
  "float ndarray \<Rightarrow> float ndarray \<Rightarrow> float ndarray option \<Rightarrow> int option \<Rightarrow> error + float ndarray" where
  "mase_numerator y y_hat weights axis =
     bind (binop fsub y y_hat) (\<lambda>d. np_average (amap fabs d) weights axis)"

definition seasonal_scale :: "float ndarray \<Rightarrow> int \<Rightarrow> int option \<Rightarrow> error + float ndarray" where
  "seasonal_scale y_train seasonality axis =
     (let n = (case shape y_train of [] \<Rightarrow> 0 | n # _ \<Rightarrow> n) in
      bind (slice0 y_train 0 (slice_bound n (- seasonality))) (\<lambda>head.
      bind (slice0 y_train (slice_bound n seasonality) n) (\<lambda>tail.
      bind (binop fsub head tail) (\<lambda>sd.
        np_average (amap fabs sd) None axis))))"

text \<open>
  The same two means written out from their description. \<open>mean_abs_error\<close> is the sum
  of the absolute errors \<open>|y\<^sub>i - y_hat\<^sub>i|\<close> divided by their number or, with weights,
  the sum of the products \<open>|y\<^sub>i - y_hat\<^sub>i| * w\<^sub>i\<close> divided by the sum of the weights.
  \<open>seasonal_differences y_train s\<close> is the array \<^verbatim>\<open>|y_train[:-s] - y_train[s:]|\<close>:
  in row-major order, element \<open>j\<close> of the training series against the element one
  season (\<open>s\<close> rows) later; \<open>seasonal_naive_error\<close> is the sum of its elements divided by
  their number.
\<close>

definition seasonal_differences :: "float ndarray \<Rightarrow> nat \<Rightarrow> float ndarray" where
  "seasonal_differences y_train s =
     (let rest = tl (shape y_train);
          lag = s * prod_list rest;
          m = length (data y_train) - lag
      in mk ((hd (shape y_train) - s) # rest)
           (map (\<lambda>j. fabs (fsub (data y_train ! j) (data y_train ! (j + lag)))) [0..<m]))"

definition mean_abs_error :: "float ndarray \<Rightarrow> float ndarray \<Rightarrow> float ndarray option \<Rightarrow> float" where
  "mean_abs_error y y_hat weights =
     (let n = length (data y);
          e = (\<lambda>i. fabs (fsub (data y ! i) (data y_hat ! i)))
      in case weights of
           None \<Rightarrow> fdiv (fsum (map e [0..<n])) (Fin (real n))
         | Some w \<Rightarrow> fdiv (fsum (map (\<lambda>i. fmul (e i) (data w ! i)) [0..<n])) (fsum (data w)))"

definition seasonal_naive_error :: "float ndarray \<Rightarrow> nat \<Rightarrow> float" where
  "seasonal_naive_error y_train s =
     (let ds = data (seasonal_differences y_train s)
      in fdiv (fsum ds) (Fin (real (length ds))))"

text \<open>
  For the NaN-aware reductions. \<open>slices axis a\<close> lists the lanes that the reduction of
  \<open>a\<close> along \<open>axis\<close> averages, one per result position; \<open>errors g y y_hat\<close> is the
  array of elementwise errors \<open>g (y - y_hat)\<close>; \<open>kept xs es\<close> keeps the entries of
  \<open>xs\<close> at the positions where \<open>es\<close> is not NaN. \<open>excludes_nan g v weights axis r\<close>
  says that \<open>r\<close> is (\<open>g\<close> of) the mean of the non-NaN entries of \<open>v\<close>. Without
  weights, lane by lane: the sum of the non-NaN entries divided by their number, which
  is not NaN wherever the lane has a non-NaN entry. With weights: the sum of the
  products of the kept entries and their weights, divided by the sum of the kept
  weights; it is not NaN when all weights are positive, the sum of the kept weights is
  finite and some entry is not NaN.
\<close>

definition slices :: "int option \<Rightarrow> 'a ndarray \<Rightarrow> 'a list list" where
  "slices axis a =
     (case axis of
        None \<Rightarrow> [data a]
      | Some ax \<Rightarrow>
          (case normalize_axis (length (shape a)) ax of
             Inl e \<Rightarrow> []
           | Inr k \<Rightarrow> lanes (shape a) k (data a)))"

definition kept :: "'a list \<Rightarrow> float list \<Rightarrow> 'a list" where
  "kept xs es = map fst (filter (\<lambda>p. \<not> isnan (snd p)) (zip xs es))"

definition errors :: "(float \<Rightarrow> float) \<Rightarrow> float ndarray \<Rightarrow> float ndarray \<Rightarrow> float ndarray" where
  "errors g y y_hat = mk (shape y) (map2 (\<lambda>a b. g (fsub a b)) (data y) (data y_hat))"

text \<open>A finite value above zero.\<close>

fun positive :: "float \<Rightarrow> bool" where
  "positive (Fin r) = (0 < r)"
| "positive _ = False"

definition excludes_nan ::
  "(float \<Rightarrow> float) \<Rightarrow> float ndarray \<Rightarrow> float ndarray option \<Rightarrow> int option \<Rightarrow> float ndarray
     \<Rightarrow> bool" where
  "excludes_nan g v weights axis r =
     (case weights of
        None \<Rightarrow>
          data r = map (\<lambda>l. g (fdiv (fsum (filter (\<lambda>e. \<not> isnan e) l))
                                   (Fin (real (length (filter (\<lambda>e. \<not> isnan e) l))))))
                     (slices axis v)
          \<and> (\<forall>i < length (data r).
                (\<exists>e \<in> set (slices axis v ! i). \<not> isnan e) \<longrightarrow> \<not> isnan (data r ! i))
      | Some w \<Rightarrow>
          r = mk [] [g (fdiv (fsum (map2 fmul (kept (data v) (data v)) (kept (data w) (data v))))
                             (fsum (kept (data w) (data v))))]
          \<and> ((\<forall>x \<in> set (data w). positive x) \<and> isfinite (fsum (kept (data w) (data v)))
              \<and> (\<exists>e \<in> set (data v). \<not> isnan e)
                \<longrightarrow> \<not> isnan (data r ! 0)))"

text \<open>
  For \<^verbatim>\<open>mape\<close> and \<^verbatim>\<open>smape\<close>. Safe division of two values that are not negative
  leaves a finite quotient and puts 0.0 for one that is NaN or infinite; \<open>ape\<close> and
  \<open>sape\<close> are the ratios \<open>|y - y_hat| / |y|\<close> and \<open>|y - y_hat| / (|y| + |y_hat|)\<close>
  after it, and \<open>ratios f y y_hat\<close> is the array of the ratios. \<open>counts_nan_as_zero f
  c y y_hat weights axis r\<close> says that \<open>r\<close> is \<open>c\<close> times the average of the ratios,
  in which every position where \<open>y\<close> or \<open>y_hat\<close> is NaN holds 0.0 (and is counted):
  without weights, lane by lane, the sum of the ratios divided by their number, and no
  element of \<open>r\<close> is NaN when \<open>y\<close> is not empty; with weights that are finite and not
  negative and have a finite sum in every lane, no element of \<open>r\<close> is NaN either.
\<close>

definition zero_if_undefined :: "float \<Rightarrow> float" where
  "zero_if_undefined q = (if isfinite q then q else Fin 0)"

definition ape :: "float \<Rightarrow> float \<Rightarrow> float" where
  "ape a b = zero_if_undefined (fdiv (fabs (fsub a b)) (fabs a))"

definition sape :: "float \<Rightarrow> float \<Rightarrow> float" where
  "sape a b = zero_if_undefined (fdiv (fabs (fsub a b)) (fadd (fabs a) (fabs b)))"

definition ratios ::
  "(float \<Rightarrow> float \<Rightarrow> float) \<Rightarrow> float ndarray \<Rightarrow> float ndarray \<Rightarrow> float ndarray" where
  "ratios f y y_hat = mk (shape y) (map2 f (data y) (data y_hat))"

definition counts_nan_as_zero ::
  "(float \<Rightarrow> float \<Rightarrow> float) \<Rightarrow> real \<Rightarrow> float ndarray \<Rightarrow> float ndarray \<Rightarrow> float ndarray option
     \<Rightarrow> int option \<Rightarrow> float ndarray \<Rightarrow> bool" where
  "counts_nan_as_zero f c y y_hat weights axis r =
     ((\<forall>i < length (data y). isnan (data y ! i) \<or> isnan (data y_hat ! i)
          \<longrightarrow> data (ratios f y y_hat) ! i = Fin 0)
      \<and> (\<exists>m. np_average (ratios f y y_hat) weights axis = Inr m \<and> r = amap (fmul (Fin c)) m)
      \<and> (case weights of
            None \<Rightarrow>
              data r = map (\<lambda>l. fmul (Fin c) (fdiv (fsum l) (Fin (real (length l)))))
                         (slices axis (ratios f y y_hat))
              \<and> (data y \<noteq> [] \<longrightarrow> (\<forall>x \<in> set (data r). \<not> isnan x))
          | Some w \<Rightarrow>
              (\<forall>x \<in> set (data w). isfinite x \<and> not_negative x)
              \<and> (\<forall>l \<in> set (slices axis w). isfinite (fsum l))
                \<longrightarrow> (\<forall>x \<in> set (data r). \<not> isnan x)))"

text \<open>A finite value from 0 on, or \<open>+inf\<close>: not negative and not NaN.\<close>

fun pos_inf :: "float \<Rightarrow> bool" where
  "pos_inf (Fin r) = (0 \<le> r)"
| "pos_inf PInf = True"
| "pos_inf _ = False"

text \<open>
  A perfect multi-quantile forecast repeats every observation along a new last axis,
  once per quantile: \<^verbatim>\<open>np.repeat(np.expand_dims(y, -1), n, axis=-1)\<close>. An array of
  shape \<open>t\<close> whose every element is 0.0 is a \<open>zero_array t\<close>.
\<close>

definition perfect_forecast :: "float ndarray \<Rightarrow> nat \<Rightarrow> float ndarray" where
  "perfect_forecast y n = repeat_last n (expand_dims_last y)"

definition zero_array :: "nat list \<Rightarrow> float ndarray \<Rightarrow> bool" where
  "zero_array t a = (shape a = t \<and> wellformed a \<and> (\<forall>x \<in> set (data a). x = Fin 0))"

section \<open>Elementwise operations on arrays of one shape\<close>

lemma broadcast_rev_same: "broadcast_rev s s = Some s"
  by (induction s) auto

lemma broadcast_shapes_same: "broadcast_shapes s s = Some s"
  by (simp add: broadcast_shapes_def broadcast_rev_same)

lemma bidx_same: "i < prod_list s \<Longrightarrow> bidx s s i = i"
proof (induction s arbitrary: i)
  case Nil
  then show ?case by simp
next
  case (Cons d ds)
  have "i div d < prod_list ds"
    using Cons.prems by (simp add: less_mult_imp_div_less mult.commute)
  then have "bidx ds ds (i div d) = i div d"
    by (rule Cons.IH)
  then show ?case by simp
qed

lemma broadcast_to_same: "wellformed a \<Longrightarrow> broadcast_to (shape a) a = mk (shape a) (data a)"
proof -
  assume w: "wellformed a"
  have "map (\<lambda>i. data a ! bidx (rev (shape a)) (rev (shape a)) i) [0..<prod_list (shape a)]
        = map (\<lambda>i. data a ! i) [0..<prod_list (shape a)]"
    by (rule map_cong) (simp_all add: bidx_same)
  also have "\<dots> = data a"
    using w map_nth [of "data a"] by (simp add: wellformed_def)
  finally show ?thesis
    by (simp add: broadcast_to_def)
qed

lemma binop_same:
  "wellformed a \<Longrightarrow> wellformed b \<Longrightarrow> shape a = shape b \<Longrightarrow>
   binop f a b = Inr (mk (shape a) (map2 f (data a) (data b)))"
  using broadcast_to_same [of a] broadcast_to_same [of b]
  by (simp add: binop_def broadcast_shapes_same mk_def)

lemma bind_Inr: "bind r f = Inr v \<longleftrightarrow> (\<exists>u. r = Inr u \<and> f u = Inr v)"
  by (cases r) (simp_all add: bind_def)

lemma np_average_unweighted:
  "np_average a None axis = Inr m \<Longrightarrow> reduce mean axis a = Inr m"
  by (auto simp: np_average_def bind_Inr split: if_splits)

section \<open>Safe division keeps a negative infinity\<close>

text \<open>
  What \<open>divide_no_nan\<close> stores at one position, from the quotient there: the first
  masked assignment catches NaN, the second compares with \<open>+inf\<close> only.
\<close>

lemma no_nan_position:
  "(let q1 = (if \<not> feq q q then Fin 0 else q) in if feq q1 PInf then Fin 0 else q1)
   = (case q of NaN \<Rightarrow> Fin 0 | PInf \<Rightarrow> Fin 0 | NInf \<Rightarrow> NInf | Fin x \<Rightarrow> Fin x)"
  by (cases q) simp_all

lemma divide_no_nan_same:
  assumes "wellformed a" "wellformed b" "shape a = shape b" "divide_no_nan a b = Inr r"
  shows "r = mk (shape a)
      (map2 (\<lambda>x y. case fdiv x y of NaN \<Rightarrow> Fin 0 | PInf \<Rightarrow> Fin 0 | NInf \<Rightarrow> NInf | Fin r \<Rightarrow> Fin r)
        (data a) (data b))"
proof -
  have pt: "(if feq (if \<not> feq q q then Fin 0 else q) PInf then Fin 0
              else if \<not> feq q q then Fin 0 else q)
        = (case q of NaN \<Rightarrow> Fin 0 | PInf \<Rightarrow> Fin 0 | NInf \<Rightarrow> NInf | Fin r \<Rightarrow> Fin r)" for q
    by (simp split: float.splits)
  have "shape a \<noteq> []"
    using assms by (auto simp: divide_no_nan_def binop_same bind_def mk_def split: if_splits)
  then show ?thesis
    using assms
    by (simp add: divide_no_nan_def binop_same bind_def amap_def mk_def Let_def
        map_zip_map2 comp_def case_prod_unfold pt)
qed

text \<open>
  C1. Safe division is claimed to store 0.0 wherever the quotient is NaN, \<open>+inf\<close> or
  \<open>-inf\<close>. On the one-element arrays \<open>[-1.0]\<close> and \<open>[0.0]\<close> the quotient is \<open>-inf\<close>;
  neither \<^verbatim>\<open>div != div\<close> nor \<^verbatim>\<open>div == float('inf')\<close> selects it, and the function
  returns \<open>[-inf]\<close> (without raising).
\<close>

theorem divide_no_nan_negative_infinity:
  "divide_no_nan (mk [1] [Fin (- 1)]) (mk [1] [Fin 0]) = Inr (mk [1] [NInf])"
  by (simp add: divide_no_nan_def binop_def broadcast_shapes_def broadcast_to_def mk_def
      bind_def amap_def)

section \<open>Evaluation on concrete arrays\<close>

lemma fsum_simps [simp]: "fsum [] = Fin 0" "fsum (x # xs) = fadd x (fsum xs)"
  by (simp_all add: fsum_def)

lemmas eval_defs = binop_def broadcast_shapes_def broadcast_to_def mk_def bind_def amap_def
  np_average_def weighted_def weighted_lane_def reduce_def normalize_axis_def lanes_def
  reduce_shape_def mean_def fcount_def slice0_def slice_bound_def fsub_def

section \<open>Weight validation\<close>

lemma metric_protections_rejects:
  "invalid_weights y w \<Longrightarrow>
   metric_protections y y_hat (Some w) = Inl (AssertionError (precondition_message y w))"
  by (auto simp: invalid_weights_def metric_protections_def precondition_message_def)

text \<open>
  Nine of the ten metrics with a \<^verbatim>\<open>weights\<close> parameter run the validator first (or
  delegate to one that does), and fail with its assertion on invalid weights.
\<close>

lemma protected_metrics_reject:
  assumes "invalid_weights y w"
  shows "mae y y_hat (Some w) axis = Inl (AssertionError (precondition_message y w))"
    and "mse y y_hat (Some w) axis = Inl (AssertionError (precondition_message y w))"
    and "rmse y y_hat (Some w) axis = Inl (AssertionError (precondition_message y w))"
    and "mape y y_hat (Some w) axis = Inl (AssertionError (precondition_message y w))"
    and "smape y y_hat (Some w) axis = Inl (AssertionError (precondition_message y w))"
    and "rmae y y_hat y_hat2 (Some w) axis = Inl (AssertionError (precondition_message y w))"
    and "quantile_loss y y_hat q (Some w) axis = Inl (AssertionError (precondition_message y w))"
    and "mqloss y y_hat qs (Some w) axis = Inl (AssertionError (precondition_message y w))"
    and "scaled_crps y y_hat qs (Some w) axis = Inl (AssertionError (precondition_message y w))"
  using metric_protections_rejects [OF assms]
  by (simp_all add: mae_def mse_def rmse_def mape_def smape_def rmae_def quantile_loss_def
      mqloss_def scaled_crps_def bind_def)

text \<open>
  C2. Every metric with a \<^verbatim>\<open>weights\<close> parameter, \<^verbatim>\<open>mase\<close> among them, is claimed to
  fail with the validator's assertion when the weights do not sum to more than 0 or have
  another shape than \<open>y\<close>. \<^verbatim>\<open>mase\<close> never calls the validator: with weights
  \<open>[-1, -1]\<close> (sum \<open>-2\<close>) it returns 1.0; with weights of shape \<open>(2,)\<close> against a \<open>y\<close> of
  shape \<open>(2, 2)\<close> it returns an array; and with weights \<open>[1, -1]\<close> (sum 0) the error is
  the \<^verbatim>\<open>ZeroDivisionError\<close> of \<^verbatim>\<open>np.average\<close>, not the validator's assertion.
\<close>

theorem mase_skips_weight_validation:
  "mase (mk [2] [Fin 1, Fin 2]) (mk [2] [Fin 0, Fin 0]) (mk [3] [Fin 1, Fin 2, Fin 4]) 1
     (Some (mk [2] [Fin (- 1), Fin (- 1)])) None = Inr (mk [] [Fin 1])
   \<and> mase (mk [2, 2] [Fin 1, Fin 2, Fin 3, Fin 4]) (mk [2, 2] [Fin 0, Fin 0, Fin 0, Fin 0])
       (mk [3, 2] [Fin 1, Fin 2, Fin 4, Fin 2, Fin 3, Fin 4]) 1
       (Some (mk [2] [Fin 1, Fin 3])) (Some 0) = Inr (mk [2] [Fin (5 / 4), Fin (7 / 2)])
   \<and> mase (mk [2] [Fin 1, Fin 2]) (mk [2] [Fin 0, Fin 0]) (mk [3] [Fin 1, Fin 2, Fin 4]) 1
       (Some (mk [2] [Fin 1, Fin (- 1)])) None = Inl ZeroDivisionError"
  by (simp add: mase_def eval_defs upt_rec)

section \<open>The weighted reduction and the axis\<close>

lemma mask_index_length:
  "mask_index a m = Inr r \<Longrightarrow> length (shape r) = 1"
  by (auto simp: mask_index_def mk_def Let_def split: if_splits)

lemma weighted_shape: "weighted s ps = Inr r \<Longrightarrow> shape r = s"
  by (auto simp: weighted_def mk_def split: if_splits)

lemma normalize_axis_less: "normalize_axis n ax = Inr k \<Longrightarrow> k < n"
  by (auto simp: normalize_axis_def split: if_splits)

lemma np_average_rank1:
  assumes "np_average a (Some w) axis = Inr r" "length (shape a) = 1"
  shows "shape r = []"
proof -
  obtain n where n: "shape a = [n]"
    using assms(2) by (cases "shape a") auto
  show ?thesis
  proof (cases axis)
    case None
    then show ?thesis
      using assms(1) by (auto simp: np_average_def split: if_splits dest: weighted_shape)
  next
    case (Some ax)
    then obtain k where k: "normalize_axis (length (shape a)) ax = Inr k"
      using assms(1) by (cases "normalize_axis (length (shape a)) ax")
        (auto simp: np_average_def bind_def split: if_splits)
    then have "k = 0"
      using n normalize_axis_less [OF k] by simp
    then have "reduce_shape (shape a) k = []"
      using n by (simp add: reduce_shape_def)
    then show ?thesis
      using assms(1) Some k
      by (auto simp: np_average_def bind_def split: if_splits dest: weighted_shape)
  qed
qed

text \<open>
  The boolean mask flattens values and weights, so whatever the rank of the input and
  whatever the axis, a weighted reduction that returns at all returns a scalar.
\<close>

lemma nan_reduce_weighted_scalar:
  "nan_reduce v (Some w) axis = Inr r \<Longrightarrow> shape r = []"
  by (auto simp: nan_reduce_def bind_def split: sum.splits
      dest!: mask_index_length intro: np_average_rank1)

text \<open>
  C4. The weighted reduction of \<^verbatim>\<open>mae\<close>, \<^verbatim>\<open>mse\<close> and \<^verbatim>\<open>quantile_loss\<close> is claimed
  to average along the requested axis and to return an array of reduced rank. For
  \<open>y = [[1, 2], [3, 4]]\<close>, \<open>y_hat\<close> all zero and unit weights, \<^verbatim>\<open>mae\<close> with \<open>axis = 1\<close>
  raises \<^verbatim>\<open>AxisError\<close> and with \<open>axis = 0\<close> returns the scalar 2.5, the mean of all
  four errors; without weights the same calls return \<open>[1.5, 3.5]\<close> and \<open>[2, 3]\<close>.
\<close>

theorem weighted_mae_ignores_axis:
  "mae (mk [2, 2] [Fin 1, Fin 2, Fin 3, Fin 4]) (mk [2, 2] [Fin 0, Fin 0, Fin 0, Fin 0])
     (Some (mk [2, 2] [Fin 1, Fin 1, Fin 1, Fin 1])) (Some 1) = Inl AxisError
   \<and> mae (mk [2, 2] [Fin 1, Fin 2, Fin 3, Fin 4]) (mk [2, 2] [Fin 0, Fin 0, Fin 0, Fin 0])
       (Some (mk [2, 2] [Fin 1, Fin 1, Fin 1, Fin 1])) (Some 0) = Inr (mk [] [Fin (5 / 2)])
   \<and> mae (mk [2, 2] [Fin 1, Fin 2, Fin 3, Fin 4]) (mk [2, 2] [Fin 0, Fin 0, Fin 0, Fin 0])
       None (Some 0) = Inr (mk [2] [Fin 2, Fin 3])
   \<and> mae (mk [2, 2] [Fin 1, Fin 2, Fin 3, Fin 4]) (mk [2, 2] [Fin 0, Fin 0, Fin 0, Fin 0])
       None (Some 1) = Inr (mk [2] [Fin (3 / 2), Fin (7 / 2)])"
  by (simp add: mae_def metric_protections_def flt_def nan_reduce_def mask_index_def
      notnan_mask_def nanmean_def nanmean_lane_def eval_defs upt_rec)

section \<open>RMSE is the square root of MSE\<close>

text \<open>
  C5. Wherever \<^verbatim>\<open>mse\<close> returns, \<^verbatim>\<open>rmse\<close> on the same arguments returns the array of
  the same shape whose every element is the square root of the element of \<^verbatim>\<open>mse\<close>
  (one element when the axis reduces everything); where \<^verbatim>\<open>mse\<close> raises, \<^verbatim>\<open>rmse\<close>
  raises the same error.
\<close>

theorem rmse_is_sqrt_of_mse:
  "rmse y y_hat weights axis =
     (case mse y y_hat weights axis of
        Inl e \<Rightarrow> Inl e
      | Inr m \<Rightarrow> Inr (mk (shape m) (map fsqrt (data m))))"
  by (simp add: rmse_def bind_def amap_def)

theorem rmse_is_sqrt_of_mse_witness:
  "rmse (mk [1] [Fin 2]) (mk [1] [Fin 0]) None None = Inr (mk [] [Fin 2])
   \<and> rmse (mk [2, 1] [Fin 2, Fin 3]) (mk [2, 1] [Fin 0, Fin 0]) None (Some 1)
       = Inr (mk [2] [Fin 2, Fin 3])"
  using rmse_is_sqrt_of_mse [of "mk [1] [Fin 2]" "mk [1] [Fin 0]" None None]
    rmse_is_sqrt_of_mse [of "mk [2, 1] [Fin 2, Fin 3]" "mk [2, 1] [Fin 0, Fin 0]" None "Some 1"]
  by (simp add: mse_def metric_protections_def nan_reduce_def fsquare_def
      nanmean_def nanmean_lane_def eval_defs upt_rec)

section \<open>Coverage and calibration\<close>

lemma shape_mk [simp]: "shape (mk s xs) = s"
  by (simp add: mk_def)

lemma data_mk [simp]: "data (mk s xs) = xs"
  by (simp add: mk_def)

lemma wellformed_mk [simp]: "wellformed (mk s xs) = (length xs = prod_list s)"
  by (simp add: wellformed_def)

lemma fsum_indicator:
  "fsum (map (\<lambda>x. if x then Fin 1 else Fin 0) bs) = Fin (real (hits bs))"
  by (induction bs) (simp_all add: hits_def)

lemma hits_le: "hits bs \<le> length bs"
  by (simp add: hits_def)

lemma bool_mean_value:
  "data b \<noteq> [] \<Longrightarrow> bool_mean b = Fin (real (hits (data b)) / real (length (data b)))"
  by (simp add: bool_mean_def mean_def fcount_def fsum_indicator)

lemma coverage_same:
  assumes "wellformed y" "wellformed lo" "wellformed hi" "shape lo = shape y" "shape hi = shape y"
  shows "coverage y lo hi = Inr (fmul (Fin 100) (bool_mean (mk (shape y) (inside y lo hi))))"
proof -
  have len: "length (data lo) = length (data y)" "length (data hi) = length (data y)"
    using assms by (simp_all add: wellformed_def)
  have "map2 (\<and>) (map2 (\<lambda>a b. fle b a) (data y) (data lo)) (map2 fle (data y) (data hi))
        = inside y lo hi"
    using len by (intro nth_equalityI) (simp_all add: inside_def)
  then show ?thesis
    using assms len by (simp add: coverage_def binop_same bind_def wellformed_def)
qed

lemma calibration_same:
  assumes "wellformed y" "wellformed hi" "shape hi = shape y"
  shows "calibration y hi = Inr (bool_mean (mk (shape y) (below y hi)))"
proof -
  have len: "length (data hi) = length (data y)"
    using assms by (simp add: wellformed_def)
  have "map2 fle (data y) (data hi) = below y hi"
    using len by (intro nth_equalityI) (simp_all add: below_def)
  then show ?thesis
    using assms by (simp add: calibration_def binop_same bind_def)
qed

lemma coverage_value:
  assumes "wellformed y" "wellformed lo" "wellformed hi" "shape lo = shape y" "shape hi = shape y"
    and "data y \<noteq> []"
  shows "coverage y lo hi
    = Inr (Fin (100 * (real (hits (inside y lo hi)) / real (length (data y)))))"
proof -
  have "inside y lo hi \<noteq> []" "length (inside y lo hi) = length (data y)"
    using assms(6) by (simp_all add: inside_def)
  then show ?thesis
    using assms bool_mean_value [of "mk (shape y) (inside y lo hi)"]
    by (simp add: coverage_same)
qed

lemma calibration_value:
  assumes "wellformed y" "wellformed hi" "shape hi = shape y" "data y \<noteq> []"
  shows "calibration y hi = Inr (Fin (real (hits (below y hi)) / real (length (data y))))"
proof -
  have "below y hi \<noteq> []" "length (below y hi) = length (data y)"
    using assms(4) by (simp_all add: below_def)
  then show ?thesis
    using assms bool_mean_value [of "mk (shape y) (below y hi)"]
    by (simp add: calibration_same)
qed

lemma hits_fraction: "bs \<noteq> [] \<Longrightarrow> real (hits bs) / real (length bs) \<le> 1"
  using hits_le [of bs] by (simp add: divide_le_eq_1)

text \<open>
  C9 as stated fails on an array without elements: the mean of no indicator values is
  NaN, which lies in neither range.
\<close>

theorem coverage_of_empty_array:
  "coverage (mk [0] []) (mk [0] []) (mk [0] []) = Inr NaN
   \<and> calibration (mk [0] []) (mk [0] []) = Inr NaN"
  by (simp add: coverage_def calibration_def bool_mean_def eval_defs)

text \<open>
  C9, amended. For arrays of one shape with at least one element, \<^verbatim>\<open>coverage\<close>
  returns one scalar, 100 times the fraction of positions with \<open>lo \<le> y \<le> hi\<close>, which
  lies in \<open>[0, 100]\<close>; \<^verbatim>\<open>calibration\<close> returns the unscaled fraction of positions
  with \<open>y \<le> hi\<close>, which lies in \<open>[0, 1]\<close>.
\<close>

theorem coverage_calibration_range:
  assumes "wellformed y" "wellformed lo" "wellformed hi"
    and "shape lo = shape y" "shape hi = shape y" "data y \<noteq> []"
  shows "coverage y lo hi = Inr (Fin (100 * (real (hits (inside y lo hi)) / real (length (data y)))))
    \<and> 0 \<le> 100 * (real (hits (inside y lo hi)) / real (length (data y)))
    \<and> 100 * (real (hits (inside y lo hi)) / real (length (data y))) \<le> 100
    \<and> calibration y hi = Inr (Fin (real (hits (below y hi)) / real (length (data y))))
    \<and> 0 \<le> real (hits (below y hi)) / real (length (data y))
    \<and> real (hits (below y hi)) / real (length (data y)) \<le> 1"
proof -
  have "inside y lo hi \<noteq> []" "length (inside y lo hi) = length (data y)"
    using assms(6) by (simp_all add: inside_def)
  then have r1: "real (hits (inside y lo hi)) / real (length (data y)) \<le> 1"
    using hits_fraction [of "inside y lo hi"] by simp
  have "below y hi \<noteq> []" "length (below y hi) = length (data y)"
    using assms(6) by (simp_all add: below_def)
  then have r2: "real (hits (below y hi)) / real (length (data y)) \<le> 1"
    using hits_fraction [of "below y hi"] by simp
  show ?thesis
    using coverage_value [OF assms] calibration_value [OF assms(1,3,5,6)] r1 r2 by simp
qed

theorem coverage_calibration_range_witness:
  "coverage (mk [2] [Fin 1, Fin 5]) (mk [2] [Fin 0, Fin 0]) (mk [2] [Fin 2, Fin 2]) = Inr (Fin 50)
   \<and> calibration (mk [2] [Fin 1, Fin 5]) (mk [2] [Fin 2, Fin 2]) = Inr (Fin (1 / 2))"
  using coverage_calibration_range [of "mk [2] [Fin 1, Fin 5]" "mk [2] [Fin 0, Fin 0]"
      "mk [2] [Fin 2, Fin 2]"]
  by (simp add: inside_def below_def hits_def upt_rec)

section \<open>NaN observations in coverage and calibration\<close>

lemma fle_nan: "isnan a \<Longrightarrow> \<not> fle a b" "isnan a \<Longrightarrow> \<not> fle b a"
  by (cases a; cases b; simp)+

lemma observed_positions:
  "observed y = length (filter (\<lambda>i. \<not> isnan (data y ! i)) [0..<length (data y)])"
proof -
  have "filter (\<lambda>v. \<not> isnan v) (map (\<lambda>i. data y ! i) [0..<length (data y)])
        = map (\<lambda>i. data y ! i) (filter (\<lambda>i. \<not> isnan (data y ! i)) [0..<length (data y)])"
    by (simp add: filter_map comp_def)
  then show ?thesis
    using map_nth [of "data y"] by (simp add: observed_def)
qed

lemma length_filter_imp:
  "(\<And>x. x \<in> set xs \<Longrightarrow> P x \<Longrightarrow> Q x) \<Longrightarrow> length (filter P xs) \<le> length (filter Q xs)"
  by (induction xs) auto

lemma hits_inside_le_observed: "hits (inside y lo hi) \<le> observed y"
  unfolding hits_def inside_def observed_positions
  by (simp add: filter_map comp_def) (rule length_filter_imp, auto dest: fle_nan)

lemma hits_below_le_observed: "hits (below y hi) \<le> observed y"
  unfolding hits_def below_def observed_positions
  by (simp add: filter_map comp_def) (rule length_filter_imp, auto dest: fle_nan)

lemma observed_less:
  "i < length (data y) \<Longrightarrow> isnan (data y ! i) \<Longrightarrow> observed y < length (data y)"
  unfolding observed_def by (rule length_filter_less [of "data y ! i"]) simp_all

lemma fraction_lowered:
  assumes "0 < h" "h \<le> m" "m < (n::nat)"
  shows "real h / real n < real h / real m"
  using assms by (intro divide_strict_left_mono) simp_all

text \<open>
  C10. Where \<open>y\<close> is NaN, both comparisons are false: the position counts as not
  covered (not below the bound). It still counts in the number of positions the mean
  divides by, so that, as soon as one position is covered, the result is strictly lower
  than the mean over the positions where \<open>y\<close> is not NaN, which the NaN-excluding
  reductions of the other metrics would give.
\<close>

theorem nan_counts_as_not_covered:
  assumes "wellformed y" "wellformed lo" "wellformed hi"
    and "shape lo = shape y" "shape hi = shape y"
    and "i < length (data y)" "isnan (data y ! i)"
  shows "\<not> inside y lo hi ! i \<and> \<not> below y hi ! i
    \<and> coverage y lo hi = Inr (Fin (100 * (real (hits (inside y lo hi)) / real (length (data y)))))
    \<and> calibration y hi = Inr (Fin (real (hits (below y hi)) / real (length (data y))))
    \<and> (0 < hits (inside y lo hi) \<longrightarrow>
         100 * (real (hits (inside y lo hi)) / real (length (data y)))
           < 100 * (real (hits (inside y lo hi)) / real (observed y)))
    \<and> (0 < hits (below y hi) \<longrightarrow>
         real (hits (below y hi)) / real (length (data y))
           < real (hits (below y hi)) / real (observed y))"
proof -
  have ne: "data y \<noteq> []"
    using assms(6) by auto
  have a: "\<not> inside y lo hi ! i" and b: "\<not> below y hi ! i"
    using assms(6,7) by (simp_all add: inside_def below_def fle_nan)
  have c: "0 < hits (inside y lo hi) \<longrightarrow>
         100 * (real (hits (inside y lo hi)) / real (length (data y)))
           < 100 * (real (hits (inside y lo hi)) / real (observed y))"
  proof
    assume "0 < hits (inside y lo hi)"
    then have "real (hits (inside y lo hi)) / real (length (data y))
        < real (hits (inside y lo hi)) / real (observed y)"
      using hits_inside_le_observed observed_less [OF assms(6,7)] by (rule fraction_lowered)
    then show "100 * (real (hits (inside y lo hi)) / real (length (data y)))
           < 100 * (real (hits (inside y lo hi)) / real (observed y))"
      by simp
  qed
  have d: "0 < hits (below y hi) \<longrightarrow>
         real (hits (below y hi)) / real (length (data y))
           < real (hits (below y hi)) / real (observed y)"
    using hits_below_le_observed observed_less [OF assms(6,7)]
    by (auto intro: fraction_lowered)
  show ?thesis
    using a b c d coverage_value [OF assms(1-5) ne] calibration_value [OF assms(1,3,5) ne]
    by simp
qed

theorem nan_counts_as_not_covered_witness:
  "coverage (mk [2] [NaN, Fin 1]) (mk [2] [Fin 0, Fin 0]) (mk [2] [Fin 2, Fin 2]) = Inr (Fin 50)
   \<and> calibration (mk [2] [NaN, Fin 1]) (mk [2] [Fin 2, Fin 2]) = Inr (Fin (1 / 2))
   \<and> observed (mk [2] [NaN, Fin 1]) = 1
   \<and> hits (inside (mk [2] [NaN, Fin 1]) (mk [2] [Fin 0, Fin 0]) (mk [2] [Fin 2, Fin 2])) = 1"
  using nan_counts_as_not_covered [of "mk [2] [NaN, Fin 1]" "mk [2] [Fin 0, Fin 0]"
      "mk [2] [Fin 2, Fin 2]" 0]
  by (simp add: inside_def below_def hits_def observed_def upt_rec)

section \<open>Lanes of a reduction\<close>

lemma lanes_length: "length (lanes shp k xs) = prod_list (reduce_shape shp k)"
  by (simp add: lanes_def reduce_shape_def Let_def length_concat comp_def sum_list_triv)

lemma lane_index_bound:
  assumes "out < outer" "j < len" "i < inner"
  shows "(out * len + j) * inner + i < outer * len * (inner::nat)"
proof -
  have "(out * len + j) * inner + i < (out * len + j) * inner + inner"
    using assms(3) by simp
  also have "\<dots> = (out * len + j + 1) * inner"
    by (simp add: algebra_simps)
  also have "\<dots> \<le> (outer * len) * inner"
  proof (rule mult_le_mono1)
    have "out * len + j + 1 \<le> (out + 1) * len"
      using assms(2) by (simp add: algebra_simps)
    also have "\<dots> \<le> outer * len"
      using assms(1) by (intro mult_le_mono1) simp
    finally show "out * len + j + 1 \<le> outer * len" .
  qed
  finally show ?thesis .
qed

lemma prod_list_split:
  "k < length shp \<Longrightarrow>
   prod_list shp = prod_list (take k shp) * shp ! k * prod_list (drop (Suc k) shp)"
proof -
  assume "k < length shp"
  then have "shp = take k shp @ shp ! k # drop (Suc k) shp"
    by (rule id_take_nth_drop)
  then have "prod_list shp = prod_list (take k shp @ shp ! k # drop (Suc k) shp)"
    by simp
  then show ?thesis
    by (simp add: mult.assoc)
qed

lemma lanes_elements:
  assumes "length xs = prod_list shp" "k < length shp" "l \<in> set (lanes shp k xs)"
  shows "set l \<subseteq> set xs"
proof -
  obtain out i where oi: "out < prod_list (take k shp)" "i < prod_list (drop (Suc k) shp)"
    and l: "l = map (\<lambda>j. xs ! ((out * shp ! k + j) * prod_list (drop (Suc k) shp) + i)) [0..<shp ! k]"
    using assms(3) by (auto simp: lanes_def Let_def)
  have "xs ! ((out * shp ! k + j) * prod_list (drop (Suc k) shp) + i) \<in> set xs" if "j < shp ! k" for j
  proof -
    have "(out * shp ! k + j) * prod_list (drop (Suc k) shp) + i < length xs"
      using lane_index_bound [OF oi(1) that oi(2)] prod_list_split [OF assms(2)] assms(1)
      by simp
    then show ?thesis
      by (rule nth_mem)
  qed
  then show ?thesis
    using l by auto
qed

lemma binop_wellformed: "binop f a b = Inr r \<Longrightarrow> wellformed r"
  by (auto simp: binop_def broadcast_to_def split: option.splits)

section \<open>The range of SMAPE\<close>

lemma not_negative_iff: "not_negative v = (\<not> flt v (Fin 0))"
  by (cases v) (auto simp: flt_def)

lemma nn_fadd: "not_negative a \<Longrightarrow> not_negative b \<Longrightarrow> not_negative (fadd a b)"
  by (cases a; cases b) simp_all

lemma nn_fmul: "not_negative a \<Longrightarrow> not_negative b \<Longrightarrow> not_negative (fmul a b)"
  by (cases a; cases b) simp_all

lemma nn_fdiv: "not_negative a \<Longrightarrow> not_negative b \<Longrightarrow> not_negative (fdiv a b)"
  by (cases a; cases b) simp_all

lemma nn_fabs: "not_negative (fabs a)"
  by (cases a) simp_all

lemma nn_fsum: "\<forall>x \<in> set xs. not_negative x \<Longrightarrow> not_negative (fsum xs)"
  by (induction xs) (simp_all add: nn_fadd)

lemma nn_mean: "\<forall>x \<in> set xs. not_negative x \<Longrightarrow> not_negative (mean xs)"
  by (simp add: mean_def fcount_def nn_fdiv nn_fsum)

lemma nn_map2:
  assumes "\<forall>x \<in> set xs. P x" "\<forall>y \<in> set ys. Q y" "\<And>x y. P x \<Longrightarrow> Q y \<Longrightarrow> R (f x y)"
  shows "\<forall>z \<in> set (map2 f xs ys). R z"
proof
  fix z assume "z \<in> set (map2 f xs ys)"
  then obtain x y where "(x, y) \<in> set (zip xs ys)" "z = f x y"
    by auto
  then show "R z"
    using assms set_zip_leftD [of x y xs ys] set_zip_rightD [of x y xs ys] by simp
qed

lemma nn_weighted_lane:
  assumes "\<forall>x \<in> set (fst p). not_negative x" "\<forall>w \<in> set (snd p). not_negative w"
  shows "not_negative (weighted_lane p)"
proof -
  have "\<forall>z \<in> set (map2 fmul (fst p) (snd p)). not_negative z"
    using assms by (rule nn_map2) (rule nn_fmul)
  then show ?thesis
    using assms(2) by (simp add: weighted_lane_def nn_fdiv nn_fsum)
qed

lemma weighted_data:
  "weighted s ps = Inr r \<Longrightarrow> data r = map weighted_lane ps"
  by (auto simp: weighted_def split: if_splits)

lemma nn_weighted:
  assumes "weighted s ps = Inr r"
    and "\<forall>p \<in> set ps. (\<forall>x \<in> set (fst p). not_negative x) \<and> (\<forall>w \<in> set (snd p). not_negative w)"
  shows "\<forall>x \<in> set (data r). not_negative x"
  using weighted_data [OF assms(1)] assms(2) by (auto intro: nn_weighted_lane)

lemma nn_lanes:
  assumes "wellformed a" "k < length (shape a)" "\<forall>x \<in> set (data a). P x"
  shows "\<forall>l \<in> set (lanes (shape a) k (data a)). \<forall>x \<in> set l. P x"
  using assms lanes_elements [of "data a" "shape a" k] by (auto simp: wellformed_def)

lemma nn_reduce_mean:
  assumes "reduce mean axis a = Inr m" "wellformed a" "\<forall>x \<in> set (data a). not_negative x"
  shows "\<forall>x \<in> set (data m). not_negative x"
proof (cases axis)
  case None
  then show ?thesis
    using assms by (auto simp: reduce_def nn_mean)
next
  case (Some ax)
  then obtain k where k: "normalize_axis (length (shape a)) ax = Inr k"
    and m: "m = mk (reduce_shape (shape a) k) (map mean (lanes (shape a) k (data a)))"
    using assms(1) by (cases "normalize_axis (length (shape a)) ax") (auto simp: reduce_def bind_def)
  have "\<forall>l \<in> set (lanes (shape a) k (data a)). \<forall>x \<in> set l. not_negative x"
    using assms(2) normalize_axis_less [OF k] assms(3) by (rule nn_lanes)
  then show ?thesis
    using m by (auto intro: nn_mean)
qed

lemma nn_np_average:
  assumes "np_average a weights axis = Inr m" "wellformed a" "\<forall>x \<in> set (data a). not_negative x"
    and "weights = None \<or> (\<exists>w. weights = Some w \<and> wellformed w \<and> shape w = shape a
           \<and> (\<forall>v \<in> set (data w). not_negative v))"
  shows "\<forall>x \<in> set (data m). not_negative x"
proof (cases weights)
  case None
  then show ?thesis
    using assms(1-3) nn_reduce_mean [of axis a m] by (simp add: np_average_unweighted)
next
  case (Some w)
  then have w: "wellformed w" "shape w = shape a" "\<forall>v \<in> set (data w). not_negative v"
    using assms(4) by auto
  show ?thesis
  proof (cases axis)
    case None
    then have "weighted [] [(data a, data w)] = Inr m"
      using assms(1) Some w(2) by (simp add: np_average_def)
    then show ?thesis
      using nn_weighted [of "[]" "[(data a, data w)]" m] assms(3) w(3) by simp
  next
    case (Some ax)
    then obtain k where k: "normalize_axis (length (shape a)) ax = Inr k"
      and m: "weighted (reduce_shape (shape a) k)
               (zip (lanes (shape a) k (data a)) (lanes (shape a) k (data w))) = Inr m"
      using assms(1) \<open>weights = Some w\<close> w(2)
      by (cases "normalize_axis (length (shape a)) ax") (auto simp: np_average_def bind_def)
    have la: "\<forall>l \<in> set (lanes (shape a) k (data a)). \<forall>x \<in> set l. not_negative x"
      using assms(2) normalize_axis_less [OF k] assms(3) by (rule nn_lanes)
    have lw: "\<forall>l \<in> set (lanes (shape a) k (data w)). \<forall>x \<in> set l. not_negative x"
      using nn_lanes [OF w(1) _ w(3), of k] normalize_axis_less [OF k] w(2) by simp
    show ?thesis
      using m
    proof (rule nn_weighted)
      show "\<forall>p \<in> set (zip (lanes (shape a) k (data a)) (lanes (shape a) k (data w))).
              (\<forall>x \<in> set (fst p). not_negative x) \<and> (\<forall>w \<in> set (snd p). not_negative w)"
        using la lw by (auto dest: set_zip_leftD set_zip_rightD)
    qed
  qed
qed


lemma reduce_wellformed: "reduce f axis a = Inr r \<Longrightarrow> wellformed r"
  by (cases axis; cases "normalize_axis (length (shape a)) (the axis)")
    (auto simp: reduce_def bind_def lanes_length)

lemma weighted_wellformed: "weighted s ps = Inr r \<Longrightarrow> length ps = prod_list s \<Longrightarrow> wellformed r"
  by (auto simp: weighted_def split: if_splits)

lemma np_average_wellformed: "np_average a weights axis = Inr r \<Longrightarrow> wellformed r"
proof (cases weights)
  case None
  assume "np_average a weights axis = Inr r"
  then show ?thesis
    using None reduce_wellformed [of mean axis a r] by (simp add: np_average_unweighted)
next
  case (Some w)
  assume r: "np_average a weights axis = Inr r"
  show ?thesis
  proof (cases axis)
    case None
    then show ?thesis
      using r Some weighted_wellformed [of "[]" "[(data a, data w)]" r]
      by (auto simp: np_average_def split: if_splits)
  next
    case (Some ax)
    then show ?thesis
      using r \<open>weights = Some w\<close>
      by (cases "normalize_axis (length (shape a)) ax")
        (auto simp: np_average_def bind_def lanes_length split: if_splits
          intro!: weighted_wellformed)
  qed
qed

lemma py_all_true:
  assumes "py_all b = Inr True" "wellformed b" "shape b \<noteq> []"
  shows "list_all (\<lambda>x. x) (data b)"
proof (cases "prod_list (tl (shape b)) = 1")
  case True
  then show ?thesis
    using assms(1) by (simp add: py_all_def)
next
  case False
  then have "hd (shape b) = 0"
    using assms(1) by (simp add: py_all_def split: if_splits)
  then have "prod_list (shape b) = 0"
    using assms(3) by (cases "shape b") simp_all
  then show ?thesis
    using assms(2) by (simp add: wellformed_def)
qed

lemma smape_steps:
  assumes "smape y y_hat weights axis = Inr r"
  obtains d scale ratio m where
    "metric_protections y y_hat weights = Inr ()"
    "binop fsub y y_hat = Inr d"
    "binop fadd (amap fabs y) (amap fabs y_hat) = Inr scale"
    "divide_no_nan (amap fabs d) scale = Inr ratio"
    "np_average ratio weights axis = Inr m"
    "r = amap (fmul (Fin 200)) m"
    "shape r = [] \<longrightarrow> list_all (\<lambda>x. fle x (Fin 200)) (data r)"
    "shape r \<noteq> [] \<longrightarrow> py_all (amap (\<lambda>x. fle x (Fin 200)) r) = Inr True"
  using assms unfolding smape_def bind_def Let_def
  by (auto split: sum.splits if_splits)

lemma shape_amap [simp]: "shape (amap f a) = shape a"
  by (simp add: amap_def)

lemma data_amap [simp]: "data (amap f a) = map f (data a)"
  by (simp add: amap_def)

lemma wellformed_amap [simp]: "wellformed (amap f a) = wellformed a"
  by (simp add: wellformed_def)

lemma smape_upper:
  assumes "smape y y_hat weights axis = Inr r"
  shows "\<forall>x \<in> set (data r). fle x (Fin 200)"
proof -
  from assms obtain ratio m where m: "np_average ratio weights axis = Inr m"
      "r = amap (fmul (Fin 200)) m"
    and a: "shape r = [] \<longrightarrow> list_all (\<lambda>x. fle x (Fin 200)) (data r)"
    and b: "shape r \<noteq> [] \<longrightarrow> py_all (amap (\<lambda>x. fle x (Fin 200)) r) = Inr True"
    by (rule smape_steps)
  have wr: "wellformed r"
    using np_average_wellformed [OF m(1)] m(2) by simp
  show ?thesis
  proof (cases "shape r = []")
    case True
    then show ?thesis
      using a by (simp add: list_all_iff)
  next
    case False
    then have "list_all (\<lambda>x. x) (data (amap (\<lambda>x. fle x (Fin 200)) r))"
      using b wr by (intro py_all_true) simp_all
    then show ?thesis
      by (simp add: list_all_iff)
  qed
qed

lemma metric_protections_ok:
  "metric_protections y y_hat (Some w) = Inr u \<Longrightarrow> shape w = shape y"
  by (auto simp: metric_protections_def split: if_splits)

lemma clean_quotient_nn:
  assumes "not_negative u" "not_negative v"
  shows "not_negative (case fdiv u v of NaN \<Rightarrow> Fin 0 | PInf \<Rightarrow> Fin 0 | NInf \<Rightarrow> NInf | Fin r \<Rightarrow> Fin r)"
  using nn_fdiv [OF assms] by (cases "fdiv u v") simp_all

lemma smape_lower:
  assumes "smape y y_hat weights axis = Inr r"
    and "wellformed y" "wellformed y_hat" "shape y_hat = shape y"
    and "weights = None \<or> (\<exists>w. weights = Some w \<and> wellformed w
           \<and> (\<forall>v \<in> set (data w). \<not> flt v (Fin 0)))"
  shows "\<forall>x \<in> set (data r). not_negative x"
proof -
  from assms(1) obtain d scale ratio m where
    p: "metric_protections y y_hat weights = Inr ()"
    and d: "binop fsub y y_hat = Inr d"
    and sc: "binop fadd (amap fabs y) (amap fabs y_hat) = Inr scale"
    and ra: "divide_no_nan (amap fabs d) scale = Inr ratio"
    and m: "np_average ratio weights axis = Inr m"
    and r: "r = amap (fmul (Fin 200)) m"
    by (rule smape_steps)
  have d': "d = mk (shape y) (map2 fsub (data y) (data y_hat))"
    using d assms(2-4) by (simp add: binop_same)
  have sc': "scale = mk (shape y) (map2 fadd (map fabs (data y)) (map fabs (data y_hat)))"
    using sc assms(2-4) by (simp add: binop_same)
  have len: "length (data y_hat) = length (data y)" "length (data y) = prod_list (shape y)"
    using assms(2-4) by (simp_all add: wellformed_def)
  have wd: "wellformed (amap fabs d)" "wellformed scale" "shape (amap fabs d) = shape scale"
    using d' sc' len by simp_all
  have ratio: "ratio = mk (shape y)
      (map2 (\<lambda>x y. case fdiv x y of NaN \<Rightarrow> Fin 0 | PInf \<Rightarrow> Fin 0 | NInf \<Rightarrow> NInf | Fin r \<Rightarrow> Fin r)
        (data (amap fabs d)) (data scale))"
    using divide_no_nan_same [OF wd ra] d' by simp
  have nd: "\<forall>x \<in> set (data (amap fabs d)). not_negative x"
    by (auto simp: nn_fabs)
  have ns: "\<forall>x \<in> set (data scale). not_negative x"
    unfolding sc' data_mk
    by (rule nn_map2 [where P = not_negative and Q = not_negative])
      (auto simp: nn_fabs nn_fadd)
  have nr: "\<forall>x \<in> set (data ratio). not_negative x"
    unfolding ratio data_mk using nd ns by (rule nn_map2) (rule clean_quotient_nn)
  have wr: "wellformed ratio" "shape ratio = shape y"
    using ratio d' sc' len by simp_all
  have "\<forall>x \<in> set (data m). not_negative x"
    using m wr(1) nr
  proof (rule nn_np_average)
    show "weights = None \<or> (\<exists>w. weights = Some w \<and> wellformed w \<and> shape w = shape ratio
           \<and> (\<forall>v \<in> set (data w). not_negative v))"
      using assms(5) p wr(2) by (auto simp: not_negative_iff dest: metric_protections_ok)
  qed
  then show ?thesis
    using r by (auto intro: nn_fmul)
qed

lemma bounded_value:
  "not_negative x \<Longrightarrow> fle x (Fin b) \<Longrightarrow> \<exists>v. x = Fin v \<and> 0 \<le> v \<and> v \<le> b"
  by (cases x) simp_all

text \<open>
  C6 as stated fails for weights that pass the validator (positive sum, shape of \<open>y\<close>)
  and have a negative entry: the weighted average of the ratios \<open>[0, 1]\<close> with weights
  \<open>[2, -1]\<close> is \<open>-1\<close>, the assertion checks the upper bound only, and \<open>-200\<close> is
  returned.
\<close>

theorem smape_negative_weights:
  "smape (mk [2] [Fin 1, Fin 1]) (mk [2] [Fin 1, Fin 0]) (Some (mk [2] [Fin 2, Fin (- 1)])) None
     = Inr (mk [] [Fin (- 200)])"
  by (simp add: smape_def metric_protections_def flt_def divide_no_nan_def eval_defs upt_rec)

text \<open>
  C6, amended. Whatever the arguments, every element of a result that \<^verbatim>\<open>smape\<close>
  returns is at most 200: a larger (or NaN) value fails the assertion instead. For
  arrays \<open>y\<close> and \<open>y_hat\<close> of one shape, and weights that are absent or have no
  negative entry, every element of the result is a finite value in \<open>[0, 200]\<close>.
\<close>

theorem smape_range:
  assumes "smape y y_hat weights axis = Inr r"
  shows "(\<forall>x \<in> set (data r). fle x (Fin 200))
    \<and> (wellformed y \<and> wellformed y_hat \<and> shape y_hat = shape y
         \<and> (weights = None \<or> (\<exists>w. weights = Some w \<and> wellformed w
               \<and> (\<forall>v \<in> set (data w). \<not> flt v (Fin 0))))
       \<longrightarrow> (\<forall>x \<in> set (data r). \<exists>v. x = Fin v \<and> 0 \<le> v \<and> v \<le> 200))"
  using smape_upper [OF assms] smape_lower [OF assms]
  by (auto intro: bounded_value)

theorem smape_range_witness:
  "smape (mk [2] [Fin 1, Fin 3]) (mk [2] [Fin 1, Fin 1]) None None = Inr (mk [] [Fin 50])
   \<and> smape (mk [2] [Fin 1, Fin 3]) (mk [2] [Fin 1, Fin 1]) (Some (mk [2] [Fin 1, Fin 3])) None
       = Inr (mk [] [Fin 75])
   \<and> smape (mk [2] [Fin 1, Fin 1]) (mk [2] [Fin 0, Fin 1]) (Some (mk [2] [Fin 2, Fin (- 1)])) None
       = Inl (AssertionError ''SMAPE should be lower than 200'')
   \<and> fle (Fin 50) (Fin 200) \<and> fle (Fin 75) (Fin 200)"
proof -
  have a: "smape (mk [2] [Fin 1, Fin 3]) (mk [2] [Fin 1, Fin 1]) None None = Inr (mk [] [Fin 50])"
    by (simp add: smape_def metric_protections_def flt_def divide_no_nan_def eval_defs upt_rec)
  have b: "smape (mk [2] [Fin 1, Fin 3]) (mk [2] [Fin 1, Fin 1]) (Some (mk [2] [Fin 1, Fin 3])) None
       = Inr (mk [] [Fin 75])"
    by (simp add: smape_def metric_protections_def flt_def divide_no_nan_def eval_defs upt_rec)
  have c: "smape (mk [2] [Fin 1, Fin 1]) (mk [2] [Fin 0, Fin 1]) (Some (mk [2] [Fin 2, Fin (- 1)])) None
       = Inl (AssertionError ''SMAPE should be lower than 200'')"
    by (simp add: smape_def metric_protections_def flt_def divide_no_nan_def eval_defs upt_rec)
  show ?thesis
    using a b c smape_range [OF a] smape_range [OF b] by simp
qed

section \<open>MASE on a degenerate training scale\<close>

lemma mase_decomposed:
  "mase y y_hat y_train seasonality weights axis =
     bind (mase_numerator y y_hat weights axis) (\<lambda>num.
     bind (seasonal_scale y_train seasonality axis) (\<lambda>den.
       binop fdiv num den))"
  by (simp add: mase_def mase_numerator_def seasonal_scale_def bind_def Let_def
      split: sum.splits)

lemma fdiv_by_zero: "fdiv x (Fin 0) \<in> {PInf, NInf, NaN}"
  by (cases x) simp_all

lemma fdiv_nn_by_zero: "not_negative x \<Longrightarrow> fdiv x (Fin 0) \<in> {PInf, NaN}"
  by (cases x) simp_all

lemma errors_indexed:
  assumes "length (data y_hat) = length (data y)"
  shows "data (errors g y y_hat)
    = map (\<lambda>i. g (fsub (data y ! i) (data y_hat ! i))) [0..<length (data y)]"
  using assms by (intro nth_equalityI) (simp_all add: errors_def)

lemma mase_numerator_as_average:
  assumes "wellformed y" "wellformed y_hat" "shape y_hat = shape y"
  shows "mase_numerator y y_hat weights axis = np_average (errors fabs y y_hat) weights axis"
proof -
  have "binop fsub y y_hat = Inr (mk (shape y) (map2 fsub (data y) (data y_hat)))"
    using assms by (simp add: binop_same)
  moreover have "amap fabs (mk (shape y) (map2 fsub (data y) (data y_hat))) = errors fabs y y_hat"
    by (simp add: amap_def errors_def map_zip_map2 comp_def case_prod_unfold mk_def)
  ultimately show ?thesis
    by (simp add: mase_numerator_def bind_def)
qed

lemma seasonal_scale_as_average:
  assumes "wellformed y_train" "shape y_train \<noteq> []" "0 < s"
  shows "seasonal_scale y_train (int s) axis
    = np_average (seasonal_differences y_train s) None axis"
proof -
  obtain n rest where sh: "shape y_train = n # rest"
    using assms(2) by (cases "shape y_train") simp_all
  let ?inner = "prod_list rest" and ?xs = "data y_train"
  let ?m = "(n - s) * ?inner"
  have len: "length ?xs = n * ?inner"
    using assms(1) sh by (simp add: wellformed_def)
  have b1: "slice_bound n (- int s) = n - s"
    using assms(3) by (simp add: slice_bound_def)
  have b2: "slice_bound n (int s) = min s n"
    by (simp add: slice_bound_def)
  have nm: "n - min s n = n - s"
    by simp
  let ?head = "mk ((n - s) # rest) (take ?m ?xs)"
  let ?tail = "mk ((n - s) # rest) (take ?m (drop (min s n * ?inner) ?xs))"
  have h: "slice0 y_train 0 (n - s) = Inr ?head"
    by (simp add: slice0_def sh Let_def)
  have t: "slice0 y_train (min s n) n = Inr ?tail"
    by (simp add: slice0_def sh Let_def nm)
  have lh: "length (take ?m ?xs) = ?m"
    using len by (simp add: mult_le_mono1)
  have "length (drop (min s n * ?inner) ?xs) = (n - min s n) * ?inner"
    using len by (simp add: diff_mult_distrib)
  then have "length (drop (min s n * ?inner) ?xs) = ?m"
    unfolding nm .
  then have lt: "length (take ?m (drop (min s n * ?inner) ?xs)) = ?m"
    by simp
  have wh: "wellformed ?head" "wellformed ?tail"
    using lh lt by (simp_all add: wellformed_def)
  have sd: "binop fsub ?head ?tail
      = Inr (mk ((n - s) # rest) (map2 fsub (take ?m ?xs) (take ?m (drop (min s n * ?inner) ?xs))))"
    using binop_same [OF wh, of fsub] by simp
  have m: "length ?xs - s * ?inner = ?m"
    using len by (simp add: diff_mult_distrib)
  have "map fabs (map2 fsub (take ?m ?xs) (take ?m (drop (min s n * ?inner) ?xs)))
      = map (\<lambda>j. fabs (fsub (?xs ! j) (?xs ! (j + s * ?inner)))) [0..<?m]"
  proof (rule nth_equalityI)
    show "length (map fabs (map2 fsub (take ?m ?xs) (take ?m (drop (min s n * ?inner) ?xs))))
        = length (map (\<lambda>j. fabs (fsub (?xs ! j) (?xs ! (j + s * ?inner)))) [0..<?m])"
      using lh lt by simp
  next
    fix j
    assume "j < length (map fabs (map2 fsub (take ?m ?xs) (take ?m (drop (min s n * ?inner) ?xs))))"
    then have j: "j < ?m"
      using lh lt by simp
    then have "s < n"
      by (cases "s < n") simp_all
    then have ms: "min s n = s"
      by simp
    have "s * ?inner + j < length ?xs"
    proof -
      have "s * ?inner + j < s * ?inner + (n - s) * ?inner"
        using j by simp
      also have "\<dots> = n * ?inner"
        using \<open>s < n\<close> by (simp add: add_mult_distrib [symmetric])
      finally show ?thesis
        using len by simp
    qed
    then show "map fabs (map2 fsub (take ?m ?xs) (take ?m (drop (min s n * ?inner) ?xs))) ! j
        = map (\<lambda>j. fabs (fsub (?xs ! j) (?xs ! (j + s * ?inner)))) [0..<?m] ! j"
      using j lh lt ms by (simp add: add.commute)
  qed
  then have "amap fabs (mk ((n - s) # rest)
        (map2 fsub (take ?m ?xs) (take ?m (drop (min s n * ?inner) ?xs))))
      = seasonal_differences y_train s"
    using m by (simp add: amap_def seasonal_differences_def sh Let_def)
  then show ?thesis
    using h t sd by (simp add: seasonal_scale_def sh b1 b2 bind_def Let_def)
qed


lemma average_scalar_unweighted:
  "np_average a None None = Inr (mk [] [fdiv (fsum (data a)) (Fin (real (length (data a))))])"
  by (simp add: np_average_def reduce_def bind_def mean_def fcount_def)

lemma average_scalar_weighted:
  assumes "shape w = shape a" "\<not> feq (fsum (data w)) (Fin 0)"
  shows "np_average a (Some w) None
    = Inr (mk [] [fdiv (fsum (map2 fmul (data a) (data w))) (fsum (data w))])"
  using assms by (simp add: np_average_def weighted_def weighted_lane_def)

lemma mean_abs_error_average:
  assumes "wellformed y" "wellformed y_hat" "shape y_hat = shape y"
    and "weights = None \<or> (\<exists>w. weights = Some w \<and> wellformed w \<and> shape w = shape y
           \<and> \<not> feq (fsum (data w)) (Fin 0))"
  shows "np_average (errors fabs y y_hat) weights None
    = Inr (mk [] [mean_abs_error y y_hat weights])"
proof -
  let ?n = "length (data y)"
  let ?e = "\<lambda>i. fabs (fsub (data y ! i) (data y_hat ! i))"
  have len: "length (data y_hat) = ?n"
    using assms(1-3) by (simp add: wellformed_def)
  have es: "data (errors fabs y y_hat) = map ?e [0..<?n]"
    using len by (rule errors_indexed)
  show ?thesis
  proof (cases weights)
    case None
    then show ?thesis
      using es by (simp add: average_scalar_unweighted mean_abs_error_def Let_def)
  next
    case (Some w)
    then have w: "wellformed w" "shape w = shape y" "\<not> feq (fsum (data w)) (Fin 0)"
      using assms(4) by simp_all
    then have lw: "length (data w) = ?n"
      using assms(1) by (simp add: wellformed_def)
    have "map2 fmul (map ?e [0..<?n]) (data w) = map (\<lambda>i. fmul (?e i) (data w ! i)) [0..<?n]"
      using lw by (intro nth_equalityI) simp_all
    moreover have "shape w = shape (errors fabs y y_hat)"
      using w(2) by (simp add: errors_def)
    ultimately show ?thesis
      using Some es w(3) by (simp add: average_scalar_weighted mean_abs_error_def Let_def)
  qed
qed

lemma mean_abs_error_nn: "not_negative (mean_abs_error y y_hat None)"
  by (simp add: mean_abs_error_def Let_def nn_fdiv nn_fsum nn_fabs)

lemma scalar_quotient: "binop fdiv (mk [] [a]) (mk [] [b]) = Inr (mk [] [fdiv a b])"
  using binop_same [of "mk [] [a]" "mk [] [b]" fdiv] by simp

text \<open>
  C7. With the default axis, \<^verbatim>\<open>mase\<close> returns the (weighted) mean absolute error
  divided by the mean absolute seasonal difference of the training series, for all
  arrays \<open>y\<close>, \<open>y_hat\<close> of one shape, every training array of rank 1 or more, every
  positive seasonality, and no weights or weights of the shape of \<open>y\<close> whose sum is
  not zero: the call raises nothing. Where the seasonal error is zero the result is an
  infinity or NaN; without weights it is \<open>+inf\<close> or NaN. Along any axis and for any
  weights, where the two averages are defined and of one shape, \<^verbatim>\<open>mase\<close> returns
  their elementwise quotient, an infinity or NaN at every position where the
  denominator is zero.
\<close>

theorem mase_quotient_of_means:
  assumes "wellformed y" "wellformed y_hat" "shape y_hat = shape y"
    and "wellformed y_train" "shape y_train \<noteq> []" "0 < s"
    and "weights = None \<or> (\<exists>w. weights = Some w \<and> wellformed w \<and> shape w = shape y
           \<and> \<not> feq (fsum (data w)) (Fin 0))"
  shows "mase y y_hat y_train (int s) weights None
      = Inr (mk [] [fdiv (mean_abs_error y y_hat weights) (seasonal_naive_error y_train s)])
    \<and> (seasonal_naive_error y_train s = Fin 0 \<longrightarrow>
         fdiv (mean_abs_error y y_hat weights) (seasonal_naive_error y_train s) \<in> {PInf, NInf, NaN}
         \<and> (weights = None \<longrightarrow>
              fdiv (mean_abs_error y y_hat weights) (seasonal_naive_error y_train s) \<in> {PInf, NaN}))
    \<and> (np_average (errors fabs y y_hat) weights0 axis = Inr num
         \<and> np_average (seasonal_differences y_train s) None axis = Inr den
         \<and> shape den = shape num \<longrightarrow>
         mase y y_hat y_train (int s) weights0 axis
           = Inr (mk (shape num) (map2 fdiv (data num) (data den)))
         \<and> (\<forall>i < length (data den). data den ! i = Fin 0 \<longrightarrow>
               map2 fdiv (data num) (data den) ! i \<in> {PInf, NInf, NaN}))"
proof -
  have num: "mase_numerator y y_hat w0 ax = np_average (errors fabs y y_hat) w0 ax" for w0 ax
    using assms(1-3) by (rule mase_numerator_as_average)
  have den: "seasonal_scale y_train (int s) ax = np_average (seasonal_differences y_train s) None ax"
    for ax
    using assms(4-6) by (rule seasonal_scale_as_average)
  have n0: "mase_numerator y y_hat weights None = Inr (mk [] [mean_abs_error y y_hat weights])"
    unfolding num using assms(1-3,7) by (rule mean_abs_error_average)
  have d0: "seasonal_scale y_train (int s) None = Inr (mk [] [seasonal_naive_error y_train s])"
    unfolding den by (simp add: average_scalar_unweighted seasonal_naive_error_def Let_def)
  have a: "mase y y_hat y_train (int s) weights None
      = Inr (mk [] [fdiv (mean_abs_error y y_hat weights) (seasonal_naive_error y_train s)])"
    by (simp add: mase_decomposed n0 d0 bind_def scalar_quotient)
  have b: "fdiv (mean_abs_error y y_hat weights) (seasonal_naive_error y_train s)
        \<in> {PInf, NInf, NaN}"
    if "seasonal_naive_error y_train s = Fin 0"
    unfolding that by (rule fdiv_by_zero)
  have c: "fdiv (mean_abs_error y y_hat weights) (seasonal_naive_error y_train s) \<in> {PInf, NaN}"
    if "seasonal_naive_error y_train s = Fin 0" "weights = None"
    unfolding that using mean_abs_error_nn by (rule fdiv_nn_by_zero)
  have d: "mase y y_hat y_train (int s) weights0 axis
           = Inr (mk (shape num) (map2 fdiv (data num) (data den)))
         \<and> (\<forall>i < length (data den). data den ! i = Fin 0 \<longrightarrow>
               map2 fdiv (data num) (data den) ! i \<in> {PInf, NInf, NaN})"
    if h: "np_average (errors fabs y y_hat) weights0 axis = Inr num"
      "np_average (seasonal_differences y_train s) None axis = Inr den"
      "shape den = shape num"
  proof -
    have w: "wellformed num" "wellformed den"
      using h(1,2) by (auto dest: np_average_wellformed)
    then have len: "length (data num) = length (data den)"
      using h(3) by (simp add: wellformed_def)
    have "mase y y_hat y_train (int s) weights0 axis
           = Inr (mk (shape num) (map2 fdiv (data num) (data den)))"
      using h w by (simp add: mase_decomposed num den bind_def binop_same)
    moreover have "map2 fdiv (data num) (data den) ! i \<in> {PInf, NInf, NaN}"
      if "i < length (data den)" "data den ! i = Fin 0" for i
      using that len fdiv_by_zero [of "data num ! i"] by simp
    ultimately show ?thesis
      by blast
  qed
  show ?thesis
    using a b c d by blast
qed


lemmas mase_means_eval = mean_abs_error_def seasonal_naive_error_def seasonal_differences_def
  errors_def mk_def fsub_def upt_rec Let_def

theorem mase_quotient_of_means_witness:
  "mase (mk [2] [Fin 1, Fin 2]) (mk [2] [Fin 0, Fin 0]) (mk [3] [Fin 1, Fin 2, Fin 4]) 1
      (Some (mk [2] [Fin 1, Fin 3])) None = Inr (mk [] [Fin (7 / 6)])
   \<and> mase (mk [2] [Fin 1, Fin 2]) (mk [2] [Fin 0, Fin 0]) (mk [3] [Fin 1, Fin 1, Fin 1]) 1
      (Some (mk [2] [Fin 1, Fin 3])) None = Inr (mk [] [PInf])
   \<and> mase (mk [2] [Fin 1, Fin 2]) (mk [2] [Fin 1, Fin 2]) (mk [3] [Fin 1, Fin 1, Fin 1]) 1
      None None = Inr (mk [] [NaN])
   \<and> mase (mk [2, 2] [Fin 1, Fin 2, Fin 3, Fin 4]) (mk [2, 2] [Fin 0, Fin 0, Fin 0, Fin 0])
      (mk [3, 2] [Fin 1, Fin 1, Fin 2, Fin 1, Fin 4, Fin 1]) 1 None (Some 0)
      = Inr (mk [2] [Fin (4 / 3), PInf])"
proof -
  have a: "mase (mk [2] [Fin 1, Fin 2]) (mk [2] [Fin 0, Fin 0]) (mk [3] [Fin 1, Fin 2, Fin 4]) 1
      (Some (mk [2] [Fin 1, Fin 3])) None = Inr (mk [] [Fin (7 / 6)])"
    using mase_quotient_of_means [of "mk [2] [Fin 1, Fin 2]" "mk [2] [Fin 0, Fin 0]"
        "mk [3] [Fin 1, Fin 2, Fin 4]" 1 "Some (mk [2] [Fin 1, Fin 3])", THEN conjunct1]
    by (simp add: mase_means_eval wellformed_def)
  have b: "mase (mk [2] [Fin 1, Fin 2]) (mk [2] [Fin 0, Fin 0]) (mk [3] [Fin 1, Fin 1, Fin 1]) 1
      (Some (mk [2] [Fin 1, Fin 3])) None = Inr (mk [] [PInf])"
    using mase_quotient_of_means [of "mk [2] [Fin 1, Fin 2]" "mk [2] [Fin 0, Fin 0]"
        "mk [3] [Fin 1, Fin 1, Fin 1]" 1 "Some (mk [2] [Fin 1, Fin 3])", THEN conjunct1]
    by (simp add: mase_means_eval wellformed_def)
  have c: "mase (mk [2] [Fin 1, Fin 2]) (mk [2] [Fin 1, Fin 2]) (mk [3] [Fin 1, Fin 1, Fin 1]) 1
      None None = Inr (mk [] [NaN])"
    using mase_quotient_of_means [of "mk [2] [Fin 1, Fin 2]" "mk [2] [Fin 1, Fin 2]"
        "mk [3] [Fin 1, Fin 1, Fin 1]" 1 None, THEN conjunct1]
    by (simp add: mase_means_eval wellformed_def)
  have n: "np_average (errors fabs (mk [2, 2] [Fin 1, Fin 2, Fin 3, Fin 4])
        (mk [2, 2] [Fin 0, Fin 0, Fin 0, Fin 0])) None (Some 0) = Inr (mk [2] [Fin 2, Fin 3])"
    by code_simp
  have d: "np_average (seasonal_differences
        (mk [3, 2] [Fin 1, Fin 1, Fin 2, Fin 1, Fin 4, Fin 1]) 1) None (Some 0)
      = Inr (mk [2] [Fin (3 / 2), Fin 0])"
    by code_simp
  have e: "mase (mk [2, 2] [Fin 1, Fin 2, Fin 3, Fin 4]) (mk [2, 2] [Fin 0, Fin 0, Fin 0, Fin 0])
      (mk [3, 2] [Fin 1, Fin 1, Fin 2, Fin 1, Fin 4, Fin 1]) 1 None (Some 0)
      = Inr (mk [2] [Fin (4 / 3), PInf])"
    using mase_quotient_of_means [of "mk [2, 2] [Fin 1, Fin 2, Fin 3, Fin 4]"
        "mk [2, 2] [Fin 0, Fin 0, Fin 0, Fin 0]"
        "mk [3, 2] [Fin 1, Fin 1, Fin 2, Fin 1, Fin 4, Fin 1]" 1 None None "Some 0"
        "mk [2] [Fin 2, Fin 3]" "mk [2] [Fin (3 / 2), Fin 0]",
        THEN conjunct2, THEN conjunct2] n d
    by (simp add: wellformed_def)
  show ?thesis
    using a b c e by simp
qed

section \<open>NaN entries in the average reductions\<close>

lemma pos_inf_iff: "pos_inf x = (not_negative x \<and> \<not> isnan x)"
  by (cases x) simp_all

lemma pos_inf_fadd: "pos_inf a \<Longrightarrow> pos_inf b \<Longrightarrow> pos_inf (fadd a b)"
  by (cases a; cases b) simp_all

lemma pos_inf_fsum: "\<forall>x \<in> set xs. pos_inf x \<Longrightarrow> pos_inf (fsum xs)"
  by (induction xs) (simp_all add: pos_inf_fadd)

lemma pos_inf_fdiv_count: "pos_inf a \<Longrightarrow> 0 < n \<Longrightarrow> pos_inf (fdiv a (Fin n))"
  by (cases a) simp_all

lemma pos_inf_mean: "\<forall>x \<in> set xs. pos_inf x \<Longrightarrow> xs \<noteq> [] \<Longrightarrow> pos_inf (mean xs)"
  by (simp add: mean_def fcount_def pos_inf_fdiv_count pos_inf_fsum)

lemma nanmean_lane_pos_inf:
  assumes "\<forall>x \<in> set xs. not_negative x" "\<exists>e \<in> set xs. \<not> isnan e"
  shows "pos_inf (nanmean_lane xs)"
proof -
  have "\<forall>x \<in> set (filter (\<lambda>x. \<not> isnan x) xs). pos_inf x"
    using assms(1) by (simp add: pos_inf_iff)
  moreover have "filter (\<lambda>x. \<not> isnan x) xs \<noteq> []"
    using assms(2) by (simp add: filter_empty_conv)
  ultimately show ?thesis
    unfolding nanmean_lane_def by (rule pos_inf_mean)
qed

lemma pos_inf_not_nan: "pos_inf x \<Longrightarrow> \<not> isnan x"
  by (cases x) simp_all

lemma pos_inf_fsqrt: "pos_inf x \<Longrightarrow> pos_inf (fsqrt x)"
  by (cases x) simp_all

lemma nn_fsquare: "not_negative (fsquare x)"
  by (cases x) (simp_all add: fsquare_def)

lemma nn_pinball: "0 \<le> q \<Longrightarrow> q \<le> 1 \<Longrightarrow> not_negative (pinball (Fin q) d)"
proof (cases d)
  case (Fin x)
  assume q: "0 \<le> q" "q \<le> 1"
  have "0 \<le> q * x \<or> 0 \<le> (q - 1) * x"
    using q by (cases "0 \<le> x") (simp_all add: mult_nonpos_nonpos)
  then show ?thesis
    using Fin by (auto simp: pinball_def fsub_def)
qed (auto simp: pinball_def fsub_def)

lemma slices_elements:
  assumes "wellformed a" "l \<in> set (slices axis a)"
  shows "set l \<subseteq> set (data a)"
proof (cases axis)
  case None
  then show ?thesis
    using assms(2) by (simp add: slices_def)
next
  case (Some ax)
  then obtain k where k: "normalize_axis (length (shape a)) ax = Inr k"
    and l: "l \<in> set (lanes (shape a) k (data a))"
    using assms(2) by (cases "normalize_axis (length (shape a)) ax") (auto simp: slices_def)
  show ?thesis
    using assms(1) normalize_axis_less [OF k] l lanes_elements [of "data a" "shape a" k l]
    by (simp add: wellformed_def)
qed

lemma reduce_data: "reduce f axis a = Inr r \<Longrightarrow> data r = map f (slices axis a)"
  by (cases axis; cases "normalize_axis (length (shape a)) (the axis)")
    (auto simp: reduce_def slices_def bind_def)


lemma errors_wellformed [simp]:
  "wellformed y \<Longrightarrow> wellformed y_hat \<Longrightarrow> shape y_hat = shape y \<Longrightarrow> wellformed (errors g y y_hat)"
  by (simp add: errors_def wellformed_def)

lemma shape_errors [simp]: "shape (errors g y y_hat) = shape y"
  by (simp add: errors_def)

lemma errors_elements:
  "(\<And>x. P (g x)) \<Longrightarrow> \<forall>e \<in> set (data (errors g y y_hat)). P e"
  by (auto simp: errors_def)

lemma family_as_reduce:
  assumes "wellformed y" "wellformed y_hat" "shape y_hat = shape y"
    and "bind (metric_protections y y_hat weights) (\<lambda>_.
           bind (binop fsub y y_hat) (\<lambda>d. nan_reduce (amap g d) weights axis)) = Inr r"
  shows "nan_reduce (errors g y y_hat) weights axis = Inr r"
    and "weights = Some w \<Longrightarrow> shape w = shape y"
proof -
  have "amap g (mk (shape y) (map2 fsub (data y) (data y_hat))) = errors g y y_hat"
    by (simp add: amap_def errors_def map_zip_map2 comp_def case_prod_unfold)
  then show "nan_reduce (errors g y y_hat) weights axis = Inr r"
    using assms by (simp add: bind_Inr binop_same)
  show "shape w = shape y" if "weights = Some w"
    using assms(4) that by (auto simp: bind_Inr dest: metric_protections_ok)
qed

lemma nan_reduce_unweighted:
  assumes "nan_reduce v None axis = Inr r" "wellformed v" "\<forall>e \<in> set (data v). not_negative e"
  shows "data r = map nanmean_lane (slices axis v)"
    and "\<forall>i < length (data r). (\<exists>e \<in> set (slices axis v ! i). \<not> isnan e) \<longrightarrow> pos_inf (data r ! i)"
proof -
  show d: "data r = map nanmean_lane (slices axis v)"
    using assms(1) by (simp add: nan_reduce_def nanmean_def reduce_data)
  show "\<forall>i < length (data r). (\<exists>e \<in> set (slices axis v ! i). \<not> isnan e) \<longrightarrow> pos_inf (data r ! i)"
  proof (intro allI impI)
    fix i assume i: "i < length (data r)" and e: "\<exists>e \<in> set (slices axis v ! i). \<not> isnan e"
    have "slices axis v ! i \<in> set (slices axis v)"
      using i d by simp
    then have "set (slices axis v ! i) \<subseteq> set (data v)"
      using assms(2) by (intro slices_elements)
    then have "\<forall>x \<in> set (slices axis v ! i). not_negative x"
      using assms(3) by auto
    then have "pos_inf (nanmean_lane (slices axis v ! i))"
      using e by (rule nanmean_lane_pos_inf)
    then show "pos_inf (data r ! i)"
      using i d by simp
  qed
qed


lemma kept_mask:
  "map fst (filter snd (zip xs (map (\<lambda>e. \<not> isnan e) es))) = kept xs es"
  by (induction xs arbitrary: es) (auto simp: kept_def split: list.splits simp: zip_Cons1)

lemma kept_length:
  "length xs = length es \<Longrightarrow> length (kept xs es) = length (filter (\<lambda>e. \<not> isnan e) es)"
  by (induction xs es rule: list_induct2) (simp_all add: kept_def)

lemma kept_self: "kept es es = filter (\<lambda>e. \<not> isnan e) es"
  by (induction es) (simp_all add: kept_def)

lemma kept_subset: "set (kept xs es) \<subseteq> set xs"
  by (auto simp: kept_def dest: set_zip_leftD)

lemma lanes_rank1: "length xs = n \<Longrightarrow> lanes [n] 0 xs = [xs]"
  using map_nth [of xs] by (auto simp: lanes_def)

lemma np_average_flat:
  assumes "np_average (mk [length xs] xs) (Some (mk [length ws] ws)) axis = Inr r"
    and "length ws = length xs"
  shows "weighted [] [(xs, ws)] = Inr r"
proof (cases axis)
  case None
  then show ?thesis
    using assms by (simp add: np_average_def)
next
  case (Some ax)
  then obtain k where k: "normalize_axis 1 ax = Inr k"
    using assms by (cases "normalize_axis 1 ax") (simp_all add: np_average_def bind_def)
  then have "k = 0"
    using normalize_axis_less [OF k] by simp
  then show ?thesis
    using assms Some k by (simp add: np_average_def bind_def reduce_shape_def lanes_rank1)
qed

lemma nan_reduce_weighted:
  assumes "nan_reduce v (Some w) axis = Inr r" "wellformed v" "wellformed w" "shape w = shape v"
  shows "r = mk [] [weighted_lane (kept (data v) (data v), kept (data w) (data v))]"
proof -
  have len: "length (data w) = length (data v)"
    using assms(2-4) by (simp add: wellformed_def)
  have "np_average (mk [length (kept (data v) (data v))] (kept (data v) (data v)))
          (Some (mk [length (kept (data w) (data v))] (kept (data w) (data v)))) axis = Inr r"
    using assms(1,4)
    by (simp add: nan_reduce_def mask_index_def notnan_mask_def bind_def kept_mask Let_def)
  moreover have "length (kept (data w) (data v)) = length (kept (data v) (data v))"
    using len by (simp add: kept_length)
  ultimately have "weighted [] [(kept (data v) (data v), kept (data w) (data v))] = Inr r"
    by (rule np_average_flat)
  then show ?thesis
    by (auto simp: weighted_def split: if_splits)
qed

lemma positive_fadd: "positive a \<Longrightarrow> positive b \<Longrightarrow> positive (fadd a b)"
  by (cases a; cases b) simp_all

lemma positive_fsum: "\<forall>x \<in> set xs. positive x \<Longrightarrow> xs \<noteq> [] \<Longrightarrow> positive (fsum xs)"
proof (induction xs)
  case Nil
  then show ?case by simp
next
  case (Cons x xs)
  then show ?case
    by (cases "xs = []"; cases x) (auto simp: positive_fadd)
qed

lemma pos_inf_fmul: "pos_inf a \<Longrightarrow> positive b \<Longrightarrow> pos_inf (fmul a b)"
  by (cases a; cases b) simp_all

lemma pos_inf_fdiv: "pos_inf a \<Longrightarrow> positive b \<Longrightarrow> pos_inf (fdiv a b)"
  by (cases a; cases b) simp_all

lemma weighted_lane_pos_inf:
  assumes "\<forall>x \<in> set xs. pos_inf x" "\<forall>w \<in> set ws. positive w" "ws \<noteq> []"
  shows "pos_inf (weighted_lane (xs, ws))"
proof -
  have "\<forall>z \<in> set (map2 fmul xs ws). pos_inf z"
    using assms(1,2) by (rule nn_map2) (rule pos_inf_fmul)
  then show ?thesis
    using assms(2,3) by (simp add: weighted_lane_def pos_inf_fdiv pos_inf_fsum positive_fsum)
qed

lemma weighted_kept_pos_inf:
  assumes "length ws = length es" "\<forall>e \<in> set es. not_negative e" "\<forall>w \<in> set ws. positive w"
    and "\<exists>e \<in> set es. \<not> isnan e"
  shows "pos_inf (weighted_lane (kept es es, kept ws es))"
proof (rule weighted_lane_pos_inf)
  show "\<forall>x \<in> set (kept es es). pos_inf x"
    using assms(2) by (simp add: kept_self pos_inf_iff)
  show "\<forall>w \<in> set (kept ws es). positive w"
    using assms(3) kept_subset [of ws es] by auto
  have "length (kept ws es) = length (filter (\<lambda>e. \<not> isnan e) es)"
    using assms(1) by (rule kept_length)
  moreover have "filter (\<lambda>e. \<not> isnan e) es \<noteq> []"
    using assms(4) by (simp add: filter_empty_conv)
  ultimately show "kept ws es \<noteq> []"
    by auto
qed


lemma amap_ident: "amap (\<lambda>x. x) (m :: 'a ndarray) = m"
  by (simp add: amap_def mk_def)

lemma lanes_lengths: "l \<in> set (lanes shp k xs) \<Longrightarrow> length l = shp ! k"
  by (auto simp: lanes_def Let_def)

lemma slices_nonempty:
  assumes "wellformed a" "data a \<noteq> []" "l \<in> set (slices axis a)"
  shows "l \<noteq> []"
proof (cases axis)
  case None
  then show ?thesis
    using assms(2,3) by (simp add: slices_def)
next
  case (Some ax)
  then obtain k where k: "normalize_axis (length (shape a)) ax = Inr k"
    and l: "l \<in> set (lanes (shape a) k (data a))"
    using assms(3) by (cases "normalize_axis (length (shape a)) ax") (auto simp: slices_def)
  have "0 < length (data a)"
    using assms(2) by simp
  then have "prod_list (shape a) \<noteq> 0"
    using assms(1) unfolding wellformed_def by arith
  then have "shape a ! k \<noteq> 0"
    using nth_mem [OF normalize_axis_less [OF k]] by (metis prod_list_zero_iff)
  then show ?thesis
    using lanes_lengths [OF l] by auto
qed

lemma finite_fadd: "isfinite a \<Longrightarrow> isfinite b \<Longrightarrow> isfinite (fadd a b)"
  by (cases a; cases b) simp_all

lemma finite_fmul: "isfinite a \<Longrightarrow> isfinite b \<Longrightarrow> isfinite (fmul a b)"
  by (cases a; cases b) simp_all

lemma finite_fsum: "\<forall>x \<in> set xs. isfinite x \<Longrightarrow> isfinite (fsum xs)"
  by (induction xs) (simp_all add: finite_fadd)

lemma finite_fdiv: "isfinite a \<Longrightarrow> isfinite b \<Longrightarrow> \<not> feq b (Fin 0) \<Longrightarrow> isfinite (fdiv a b)"
  by (cases a; cases b) simp_all

lemma finite_mean: "\<forall>x \<in> set xs. isfinite x \<Longrightarrow> xs \<noteq> [] \<Longrightarrow> isfinite (mean xs)"
  by (simp add: mean_def fcount_def finite_fdiv finite_fsum)

lemma finite_weighted_lane:
  assumes "\<forall>x \<in> set (fst p). isfinite x" "\<forall>w \<in> set (snd p). isfinite w"
    and "\<not> feq (fsum (snd p)) (Fin 0)"
  shows "isfinite (weighted_lane p)"
proof -
  have "\<forall>z \<in> set (map2 fmul (fst p) (snd p)). isfinite z"
    using assms(1,2) by (rule nn_map2) (rule finite_fmul)
  then show ?thesis
    using assms(2,3) by (simp add: weighted_lane_def finite_fdiv finite_fsum)
qed

lemma finite_weighted:
  assumes "weighted s ps = Inr r"
    and "\<forall>p \<in> set ps. (\<forall>x \<in> set (fst p). isfinite x) \<and> (\<forall>w \<in> set (snd p). isfinite w)"
  shows "\<forall>x \<in> set (data r). isfinite x"
proof -
  have "\<forall>p \<in> set ps. \<not> feq (fsum (snd p)) (Fin 0)" and "data r = map weighted_lane ps"
    using assms(1) by (auto simp: weighted_def split: if_splits)
  then show ?thesis
    using assms(2) by (auto intro: finite_weighted_lane)
qed

lemma finite_np_average:
  assumes "np_average a weights axis = Inr m" "wellformed a" "\<forall>x \<in> set (data a). isfinite x"
    and "weights = None \<longrightarrow> data a \<noteq> []"
    and "\<forall>w. weights = Some w \<longrightarrow> wellformed w \<and> shape w = shape a
           \<and> (\<forall>v \<in> set (data w). isfinite v)"
  shows "\<forall>x \<in> set (data m). isfinite x"
proof (cases weights)
  case None
  then have d: "data m = map mean (slices axis a)"
    using assms(1) by (simp add: np_average_unweighted reduce_data)
  have "isfinite (mean l)" if "l \<in> set (slices axis a)" for l
  proof (rule finite_mean)
    show "\<forall>x \<in> set l. isfinite x"
      using slices_elements [OF assms(2) that] assms(3) by auto
    show "l \<noteq> []"
      using assms(2) _ that by (rule slices_nonempty) (use assms(4) None in simp)
  qed
  then show ?thesis
    using d by auto
next
  case (Some w)
  then have w: "wellformed w" "shape w = shape a" "\<forall>v \<in> set (data w). isfinite v"
    using assms(5) by auto
  show ?thesis
  proof (cases axis)
    case None
    then have "weighted [] [(data a, data w)] = Inr m"
      using assms(1) Some w(2) by (simp add: np_average_def)
    then show ?thesis
      using finite_weighted [of "[]" "[(data a, data w)]" m] assms(3) w(3) by simp
  next
    case (Some ax)
    then obtain k where k: "normalize_axis (length (shape a)) ax = Inr k"
      and m: "weighted (reduce_shape (shape a) k)
               (zip (lanes (shape a) k (data a)) (lanes (shape a) k (data w))) = Inr m"
      using assms(1) \<open>weights = Some w\<close> w(2)
      by (cases "normalize_axis (length (shape a)) ax") (auto simp: np_average_def bind_def)
    have la: "\<forall>l \<in> set (lanes (shape a) k (data a)). \<forall>x \<in> set l. isfinite x"
      using assms(2) normalize_axis_less [OF k] assms(3) by (rule nn_lanes)
    have lw: "\<forall>l \<in> set (lanes (shape a) k (data w)). \<forall>x \<in> set l. isfinite x"
      using nn_lanes [OF w(1) _ w(3), of k] normalize_axis_less [OF k] w(2) by simp
    show ?thesis
      using m
    proof (rule finite_weighted)
      show "\<forall>p \<in> set (zip (lanes (shape a) k (data a)) (lanes (shape a) k (data w))).
              (\<forall>x \<in> set (fst p). isfinite x) \<and> (\<forall>w \<in> set (snd p). isfinite w)"
        using la lw by (auto dest: set_zip_leftD set_zip_rightD)
    qed
  qed
qed


section \<open>Scaled CRPS\<close>

lemma repeat_expand:
  "repeat_last n (expand_dims_last a) = mk (shape a @ [n]) (concat (map (replicate n) (data a)))"
  by (simp add: repeat_last_def expand_dims_last_def)

lemma length_repeated: "length (concat (map (replicate n) xs)) = length xs * n"
  by (induction xs) simp_all

lemma nth_repeated: "i < length xs * n \<Longrightarrow> concat (map (replicate n) xs) ! i = xs ! (i div n)"
proof (induction xs arbitrary: i)
  case Nil
  then show ?case by simp
next
  case (Cons x xs)
  show ?case
  proof (cases "i < n")
    case True
    then show ?thesis
      by (simp add: nth_append)
  next
    case False
    have "0 < n"
      using Cons.prems by (cases n) simp_all
    then have "i - n < length xs * n" and "i div n = Suc ((i - n) div n)"
      using False Cons.prems by (simp_all add: le_div_geq)
    then show ?thesis
      using False Cons.IH [of "i - n"] by (simp add: nth_append)
  qed
qed

lemma repeated_as_map:
  "map (\<lambda>i. xs ! (i div n)) [0..<length xs * n] = concat (map (replicate n) xs)"
  by (rule nth_equalityI) (simp_all add: length_repeated nth_repeated)

lemma broadcast_shapes_last:
  "broadcast_shapes (s @ [1]) (s @ [n]) = Some (s @ [n])"
  "broadcast_shapes (s @ [Suc 0]) (s @ [n]) = Some (s @ [n])"
  "broadcast_shapes [n] (s @ [n]) = Some (s @ [n])"
  by (simp_all add: broadcast_shapes_def broadcast_rev_same)

lemma bidx_nil: "bidx [] ts i = 0"
  by (cases ts) simp_all

lemma broadcast_expanded:
  assumes "wellformed y"
  shows "broadcast_to (shape y @ [n]) (expand_dims_last y)
    = mk (shape y @ [n]) (concat (map (replicate n) (data y)))"
proof -
  have len: "length (data y) = prod_list (shape y)"
    using assms by (simp add: wellformed_def)
  have "bidx (1 # rev (shape y)) (n # rev (shape y)) i = i div n"
    if "i < prod_list (shape y) * n" for i
  proof -
    have "i div n < prod_list (rev (shape y))"
      using that by (simp add: less_mult_imp_div_less)
    then show ?thesis
      by (simp add: bidx_same)
  qed
  then have "map (\<lambda>i. data y ! bidx (1 # rev (shape y)) (n # rev (shape y)) i)
               [0..<prod_list (shape y) * n]
           = map (\<lambda>i. data y ! (i div n)) [0..<length (data y) * n]"
    using len by simp
  then show ?thesis
    by (simp add: broadcast_to_def expand_dims_last_def repeated_as_map)
qed

lemma broadcast_quantiles_elements:
  "set (data (broadcast_to (s @ [length qs]) (mk [length qs] qs))) \<subseteq> set qs"
proof -
  have "qs ! bidx [length qs] (length qs # rev s) i \<in> set qs"
    if "i < prod_list s * length qs" for i
  proof -
    have "0 < length qs"
      using that by (cases "length qs") simp_all
    then have "(if length qs = 1 then 0 else i mod length qs) < length qs"
      by simp
    then show ?thesis
      by (simp add: bidx_nil)
  qed
  then show ?thesis
    by (auto simp: broadcast_to_def)
qed


lemma mqloss_steps:
  assumes "mqloss y y_hat qs weights axis = Inr r"
  obtains w err lo hi l where
    "w = (case weights of None \<Rightarrow> ones (shape y) | Some w \<Rightarrow> w)"
    "metric_protections y y_hat (Some w) = Inr ()"
    "binop fsub (expand_dims_last y) y_hat = Inr err"
    "binop fmul (mk [length qs] qs) err = Inr lo"
    "binop fmul (amap (\<lambda>q. fsub q (Fin 1)) (mk [length qs] qs)) err = Inr hi"
    "binop fmaximum lo hi = Inr l"
    "np_average l (Some (repeat_last (length qs) (expand_dims_last w))) axis = Inr r"
  using assms unfolding mqloss_def Let_def bind_Inr by auto

lemma binop_zero_right:
  assumes "zero_array t b" "broadcast_shapes (shape a) t = Some t"
    and "\<forall>x \<in> set (data (broadcast_to t a)). P x"
    and "\<And>x. P x \<Longrightarrow> f x (Fin 0) = Fin 0"
    and "binop f a b = Inr r"
  shows "zero_array t r"
proof -
  have b: "shape b = t" "wellformed b" "\<forall>x \<in> set (data b). x = Fin 0"
    using assms(1) by (simp_all add: zero_array_def)
  have bb: "broadcast_to t b = mk t (data b)"
    using broadcast_to_same [OF b(2)] b(1) by simp
  have r: "r = mk t (map2 f (data (broadcast_to t a)) (data b))"
    using assms(2,5) b(1) bb by (simp add: binop_def)
  have "\<forall>z \<in> set (map2 f (data (broadcast_to t a)) (data b)). z = Fin 0"
    using assms(3) b(3) by (rule nn_map2) (simp add: assms(4))
  then show ?thesis
    using r binop_wellformed [OF assms(5)] by (simp add: zero_array_def)
qed

lemma perfect_errors:
  assumes "wellformed y" "\<forall>x \<in> set (data y). isfinite x"
    and "binop fsub (expand_dims_last y) (perfect_forecast y n) = Inr err"
  shows "zero_array (shape y @ [n]) err"
proof -
  let ?zs = "concat (map (replicate n) (data y))"
  have wp: "wellformed (perfect_forecast y n)" "shape (perfect_forecast y n) = shape y @ [n]"
    "data (perfect_forecast y n) = ?zs"
    using assms(1) by (simp_all add: perfect_forecast_def repeat_expand length_repeated wellformed_def)
  have bp: "broadcast_to (shape y @ [n]) (perfect_forecast y n) = mk (shape y @ [n]) ?zs"
    using broadcast_to_same [OF wp(1)] wp(2,3) by simp
  have e: "err = mk (shape y @ [n]) (map2 fsub ?zs ?zs)"
    using assms(3) wp(2) bp broadcast_expanded [OF assms(1), of n]
    by (simp add: binop_def expand_dims_last_def broadcast_shapes_last)
  have "fsub z z = Fin 0" if "isfinite z" for z
    using that by (cases z) (simp_all add: fsub_def)
  then have "\<forall>x \<in> set (map2 fsub ?zs ?zs). x = Fin 0"
    using assms(2) by (auto simp: zip_same_conv_map)
  then show ?thesis
    using e binop_wellformed [OF assms(3)] by (simp add: zero_array_def)
qed

lemma finite_fsub: "isfinite a \<Longrightarrow> isfinite b \<Longrightarrow> isfinite (fsub a b)"
  by (cases a; cases b) (simp_all add: fsub_def)

lemma fmul_zero: "isfinite q \<Longrightarrow> fmul q (Fin 0) = Fin 0"
  by (cases q) simp_all

lemma perfect_loss:
  assumes "wellformed y" "\<forall>x \<in> set (data y). isfinite x" "\<forall>q \<in> set qs. isfinite q"
    and "binop fsub (expand_dims_last y) (perfect_forecast y (length qs)) = Inr err"
    and "binop fmul (mk [length qs] qs) err = Inr lo"
    and "binop fmul (amap (\<lambda>q. fsub q (Fin 1)) (mk [length qs] qs)) err = Inr hi"
    and "binop fmaximum lo hi = Inr l"
  shows "zero_array (shape y @ [length qs]) l"
proof -
  let ?t = "shape y @ [length qs]"
  have err: "zero_array ?t err"
    using assms(1,2,4) by (rule perfect_errors)
  have lo: "zero_array ?t lo"
    using err _ _ fmul_zero assms(5)
  proof (rule binop_zero_right)
    show "broadcast_shapes (shape (mk [length qs] qs)) ?t = Some ?t"
      by (simp add: broadcast_shapes_last)
    show "\<forall>x \<in> set (data (broadcast_to ?t (mk [length qs] qs))). isfinite x"
      using broadcast_quantiles_elements [of "shape y" qs] assms(3) by auto
  qed
  have hi: "zero_array ?t hi"
    using err _ _ fmul_zero assms(6)
  proof (rule binop_zero_right)
    show "broadcast_shapes (shape (amap (\<lambda>q. fsub q (Fin 1)) (mk [length qs] qs))) ?t = Some ?t"
      by (simp add: broadcast_shapes_last)
    have "set (data (broadcast_to ?t (mk [length (map (\<lambda>q. fsub q (Fin 1)) qs)]
              (map (\<lambda>q. fsub q (Fin 1)) qs)))) \<subseteq> set (map (\<lambda>q. fsub q (Fin 1)) qs)"
      using broadcast_quantiles_elements [of "shape y" "map (\<lambda>q. fsub q (Fin 1)) qs"] by simp
    then show "\<forall>x \<in> set (data (broadcast_to ?t (amap (\<lambda>q. fsub q (Fin 1)) (mk [length qs] qs)))).
                isfinite x"
      using assms(3) by (auto simp: amap_def finite_fsub)
  qed
  show ?thesis
    using hi _ _ _ assms(7)
  proof (rule binop_zero_right)
    show "broadcast_shapes (shape lo) ?t = Some ?t"
      using lo by (simp add: zero_array_def broadcast_shapes_same)
    show "\<forall>x \<in> set (data (broadcast_to ?t lo)). x = Fin 0"
      using lo broadcast_to_same [of lo] by (simp add: zero_array_def)
    show "fmaximum x (Fin 0) = Fin 0" if "x = Fin 0" for x
      using that by simp
  qed
qed


lemma fsum_zeros: "\<forall>x \<in> set xs. x = Fin 0 \<Longrightarrow> fsum xs = Fin 0"
  by (induction xs) simp_all

lemma fsum_ones: "\<forall>x \<in> set xs. x = Fin 1 \<Longrightarrow> fsum xs = Fin (real (length xs))"
  by (induction xs) simp_all

lemma zero_weighted_lane:
  assumes "\<forall>x \<in> set (fst p). x = Fin 0" "\<forall>w \<in> set (snd p). isfinite w"
    and "\<not> feq (fsum (snd p)) (Fin 0)"
  shows "weighted_lane p = Fin 0"
proof -
  have "fmul x w = Fin 0" if "x = Fin 0" "isfinite w" for x w
    using that by (cases w) simp_all
  with assms(1,2) have "\<forall>z \<in> set (map2 fmul (fst p) (snd p)). z = Fin 0"
    by (rule nn_map2)
  then have "fsum (map2 fmul (fst p) (snd p)) = Fin 0"
    by (rule fsum_zeros)
  moreover obtain b where "fsum (snd p) = Fin b" "b \<noteq> 0"
    using finite_fsum [OF assms(2)] assms(3) by (cases "fsum (snd p)") simp_all
  ultimately show ?thesis
    by (simp add: weighted_lane_def)
qed

lemma zero_weighted:
  assumes "weighted s ps = Inr r"
    and "\<forall>p \<in> set ps. (\<forall>x \<in> set (fst p). x = Fin 0) \<and> (\<forall>w \<in> set (snd p). isfinite w)"
  shows "\<forall>x \<in> set (data r). x = Fin 0"
proof -
  have "\<forall>p \<in> set ps. \<not> feq (fsum (snd p)) (Fin 0)" and "data r = map weighted_lane ps"
    using assms(1) by (auto simp: weighted_def split: if_splits)
  then show ?thesis
    using assms(2) by (auto intro: zero_weighted_lane)
qed

lemma zero_average:
  assumes "zero_array t l" "wellformed w" "shape w = t" "\<forall>v \<in> set (data w). isfinite v"
    and "np_average l (Some w) axis = Inr m"
  shows "\<forall>x \<in> set (data m). x = Fin 0"
proof -
  have l: "shape l = t" "wellformed l" "\<forall>x \<in> set (data l). x = Fin 0"
    using assms(1) by (simp_all add: zero_array_def)
  show ?thesis
  proof (cases axis)
    case None
    then have "weighted [] [(data l, data w)] = Inr m"
      using assms(3,5) l(1) by (simp add: np_average_def)
    then show ?thesis
      using zero_weighted [of "[]" "[(data l, data w)]" m] l(3) assms(4) by simp
  next
    case (Some ax)
    then obtain k where k: "normalize_axis (length (shape l)) ax = Inr k"
      and m: "weighted (reduce_shape (shape l) k)
               (zip (lanes (shape l) k (data l)) (lanes (shape l) k (data w))) = Inr m"
      using assms(3,5) l(1)
      by (cases "normalize_axis (length (shape l)) ax") (auto simp: np_average_def bind_def)
    have sw: "shape w = shape l"
      using assms(3) l(1) by simp
    have la: "\<forall>ln \<in> set (lanes (shape l) k (data l)). \<forall>x \<in> set ln. x = Fin 0"
      using l(2) normalize_axis_less [OF k] l(3) by (rule nn_lanes)
    have lw: "\<forall>ln \<in> set (lanes (shape l) k (data w)). \<forall>x \<in> set ln. isfinite x"
      using nn_lanes [OF assms(2) _ assms(4), of k] normalize_axis_less [OF k] sw by simp
    show ?thesis
      using m
    proof (rule zero_weighted)
      show "\<forall>p \<in> set (zip (lanes (shape l) k (data l)) (lanes (shape l) k (data w))).
              (\<forall>x \<in> set (fst p). x = Fin 0) \<and> (\<forall>w \<in> set (snd p). isfinite w)"
        using la lw by (auto dest: set_zip_leftD set_zip_rightD)
    qed
  qed
qed

lemma ones_props [simp]:
  "shape (ones s) = s" "wellformed (ones s)" "data (ones s) = replicate (prod_list s) (Fin 1)"
  by (simp_all add: ones_def)

lemma mqloss_perfect:
  assumes "wellformed y" "\<forall>x \<in> set (data y). isfinite x" "\<forall>q \<in> set qs. isfinite q"
    and "weights = None \<or> (\<exists>w. weights = Some w \<and> wellformed w \<and> (\<forall>v \<in> set (data w). isfinite v))"
    and "mqloss y (perfect_forecast y (length qs)) qs weights axis = Inr m"
  shows "\<forall>x \<in> set (data m). x = Fin 0"
proof -
  from assms(5) obtain w err lo hi l where
    w: "w = (case weights of None \<Rightarrow> ones (shape y) | Some w \<Rightarrow> w)"
    and p: "metric_protections y (perfect_forecast y (length qs)) (Some w) = Inr ()"
    and e: "binop fsub (expand_dims_last y) (perfect_forecast y (length qs)) = Inr err"
      "binop fmul (mk [length qs] qs) err = Inr lo"
      "binop fmul (amap (\<lambda>q. fsub q (Fin 1)) (mk [length qs] qs)) err = Inr hi"
      "binop fmaximum lo hi = Inr l"
    and a: "np_average l (Some (repeat_last (length qs) (expand_dims_last w))) axis = Inr m"
    by (rule mqloss_steps)
  have l: "zero_array (shape y @ [length qs]) l"
    using assms(1-3) e by (rule perfect_loss)
  have sw: "shape w = shape y"
    using p by (rule metric_protections_ok)
  have ww: "wellformed w" "\<forall>v \<in> set (data w). isfinite v"
    using assms(4) w by auto
  show ?thesis
    using l _ _ _ a
  proof (rule zero_average)
    show "wellformed (repeat_last (length qs) (expand_dims_last w))"
      using ww(1) by (simp add: repeat_expand length_repeated wellformed_def)
    show "shape (repeat_last (length qs) (expand_dims_last w)) = shape y @ [length qs]"
      using sw by (simp add: repeat_expand)
    show "\<forall>v \<in> set (data (repeat_last (length qs) (expand_dims_last w))). isfinite v"
      using ww(2) by (auto simp: repeat_expand)
  qed
qed

lemma scale_zero:
  assumes "isfinite c" "isfinite n" "not_negative n"
  shows "fdiv (fmul (fmul (Fin 2) (Fin 0)) c) (fadd n eps) = Fin 0"
proof -
  obtain a b where "c = Fin a" "n = Fin b" "0 \<le> b"
    using assms by (cases c; cases n) simp_all
  moreover have "b + 1 / 2 ^ 52 \<noteq> 0"
    using \<open>0 \<le> b\<close> by (simp add: add_nonneg_eq_0_iff)
  ultimately show ?thesis
    by (simp add: eps_def)
qed

lemma scaled_crps_formula:
  "scaled_crps y y_hat qs weights axis =
     bind (mqloss y y_hat qs weights axis) (\<lambda>loss.
       Inr (amap (\<lambda>l. fdiv (fmul (fmul (Fin 2) l) (Fin (real (prod_list (shape y)))))
                            (fadd (fsum (map fabs (data y))) eps)) loss))"
  by (simp add: scaled_crps_def fsum_ones)

lemma scaled_crps_perfect:
  assumes "wellformed y" "\<forall>x \<in> set (data y). isfinite x" "\<forall>q \<in> set qs. isfinite q"
    and "weights = None \<or> (\<exists>w. weights = Some w \<and> wellformed w \<and> (\<forall>v \<in> set (data w). isfinite v))"
    and "scaled_crps y (perfect_forecast y (length qs)) qs weights axis = Inr r"
  shows "\<forall>x \<in> set (data r). x = Fin 0"
proof -
  let ?f = "\<lambda>l. fdiv (fmul (fmul (Fin 2) l) (Fin (real (prod_list (shape y)))))
                            (fadd (fsum (map fabs (data y))) eps)"
  from assms(5) obtain m where
    m: "mqloss y (perfect_forecast y (length qs)) qs weights axis = Inr m"
    and r: "r = amap ?f m"
    unfolding scaled_crps_formula bind_Inr by auto
  have z: "\<forall>x \<in> set (data m). x = Fin 0"
    using assms(1-4) m by (rule mqloss_perfect)
  have "isfinite (fabs x)" if "isfinite x" for x
    using that by (cases x) simp_all
  then have "isfinite (fsum (map fabs (data y)))"
    using assms(2) by (intro finite_fsum) simp
  moreover have "not_negative (fsum (map fabs (data y)))"
    by (intro nn_fsum) (simp add: nn_fabs)
  ultimately have "?f (Fin 0) = Fin 0"
    by (intro scale_zero) simp_all
  then show ?thesis
    using z r by auto
qed


lemma binop_shape:
  "broadcast_shapes (shape a) (shape b) = Some t \<Longrightarrow> \<exists>r. binop f a b = Inr r \<and> shape r = t"
  by (simp add: binop_def)

lemma mqloss_perfect_defined:
  assumes "wellformed y" "data y \<noteq> []" "qs \<noteq> []"
  shows "\<exists>x. mqloss y (perfect_forecast y (length qs)) qs None None = Inr (mk [] [x])"
proof -
  let ?n = "length qs" and ?t = "shape y @ [length qs]"
  let ?w = "repeat_last ?n (expand_dims_last (ones (shape y)))"
  have "0 < length (data y)"
    using assms(2) by simp
  then have N: "0 < prod_list (shape y)"
    using assms(1) unfolding wellformed_def by arith
  have p: "metric_protections y (perfect_forecast y ?n) (Some (ones (shape y))) = Inr ()"
    using N by (simp add: metric_protections_def fsum_ones flt_def)
  have "broadcast_shapes (shape (expand_dims_last y)) (shape (perfect_forecast y ?n)) = Some ?t"
    by (simp add: perfect_forecast_def repeat_expand broadcast_shapes_last)
      (simp add: expand_dims_last_def broadcast_shapes_last)
  then obtain err where err: "binop fsub (expand_dims_last y) (perfect_forecast y ?n) = Inr err"
    "shape err = ?t"
    using binop_shape by blast
  obtain lo where lo: "binop fmul (mk [?n] qs) err = Inr lo" "shape lo = ?t"
    using binop_shape [of "mk [?n] qs" err ?t fmul] err(2)
    by (auto simp: broadcast_shapes_last)
  obtain hi where hi: "binop fmul (amap (\<lambda>q. fsub q (Fin 1)) (mk [?n] qs)) err = Inr hi"
    "shape hi = ?t"
    using binop_shape [of "amap (\<lambda>q. fsub q (Fin 1)) (mk [?n] qs)" err ?t fmul] err(2)
    by (auto simp: broadcast_shapes_last)
  obtain l where l: "binop fmaximum lo hi = Inr l" "shape l = ?t"
    using binop_shape [of lo hi ?t fmaximum] lo(2) hi(2)
    by (auto simp: broadcast_shapes_same)
  have "\<forall>x \<in> set (data ?w). x = Fin 1"
    by (auto simp: repeat_expand)
  then have "fsum (data ?w) = Fin (real (length (data ?w)))"
    by (rule fsum_ones)
  moreover have "0 < length (data ?w)"
    using N assms(3) by (simp add: repeat_expand length_repeated)
  ultimately have "\<not> feq (fsum (data ?w)) (Fin 0)"
    by simp
  then have "np_average l (Some ?w) None = Inr (mk [] [weighted_lane (data l, data ?w)])"
    using l(2) by (simp add: np_average_def weighted_def repeat_expand)
  then have "mqloss y (perfect_forecast y ?n) qs None None
      = Inr (mk [] [weighted_lane (data l, data ?w)])"
    using p err(1) lo(1) hi(1) l(1) by (simp add: mqloss_def bind_def)
  then show ?thesis
    by blast
qed

text \<open>
  C8 as stated fails for an observation that is infinite: the forecast equals it, the
  error \<open>inf - inf\<close> is NaN, and so is the result.
\<close>

theorem scaled_crps_infinite_observation:
  "scaled_crps (mk [1] [PInf]) (perfect_forecast (mk [1] [PInf]) 1) [Fin (1 / 2)] None None
     = Inr (mk [] [NaN])
   \<and> perfect_forecast (mk [1] [PInf]) 1 = mk [1, 1] [PInf]"
  by code_simp

text \<open>
  C8, amended. \<^verbatim>\<open>scaled_crps\<close> is \<open>2 * mqloss * N / (sum |y| + eps)\<close>, with \<open>N\<close> the
  number of elements of \<open>y\<close>, for all arguments (an error of \<^verbatim>\<open>mqloss\<close> is passed
  on). For a perfect forecast of a \<open>y\<close> with finite entries, finite quantiles and
  finite (or no) weights, every element of a returned result is 0, whether \<open>y\<close> is
  zero or not; with the default weights and axis, a non-empty \<open>y\<close> and at least one
  quantile, the call returns the scalar 0.
\<close>

theorem scaled_crps_perfect_forecast:
  assumes "wellformed y" "\<forall>x \<in> set (data y). isfinite x" "\<forall>q \<in> set qs. isfinite q"
    and "weights = None \<or> (\<exists>w. weights = Some w \<and> wellformed w \<and> (\<forall>v \<in> set (data w). isfinite v))"
  shows "scaled_crps y y_hat0 qs0 weights0 axis0 =
       bind (mqloss y y_hat0 qs0 weights0 axis0) (\<lambda>loss.
         Inr (amap (\<lambda>l. fdiv (fmul (fmul (Fin 2) l) (Fin (real (prod_list (shape y)))))
                              (fadd (fsum (map fabs (data y))) eps)) loss))
    \<and> (scaled_crps y (perfect_forecast y (length qs)) qs weights axis = Inr r
         \<longrightarrow> (\<forall>x \<in> set (data r). x = Fin 0))
    \<and> (data y \<noteq> [] \<and> qs \<noteq> []
         \<longrightarrow> scaled_crps y (perfect_forecast y (length qs)) qs None None = Inr (mk [] [Fin 0]))"
proof -
  have b: "\<forall>x \<in> set (data r). x = Fin 0"
    if "scaled_crps y (perfect_forecast y (length qs)) qs weights axis = Inr r"
    using assms that by (rule scaled_crps_perfect)
  have c: "scaled_crps y (perfect_forecast y (length qs)) qs None None = Inr (mk [] [Fin 0])"
    if ne: "data y \<noteq> []" "qs \<noteq> []"
  proof -
    obtain x where "mqloss y (perfect_forecast y (length qs)) qs None None = Inr (mk [] [x])"
      using mqloss_perfect_defined [OF assms(1) ne] by blast
    then obtain v where v: "scaled_crps y (perfect_forecast y (length qs)) qs None None
        = Inr (mk [] [v])"
      by (simp add: scaled_crps_formula bind_def amap_def)
    have "\<forall>x \<in> set (data (mk [] [v])). x = Fin 0"
      using assms(1-3) _ v by (rule scaled_crps_perfect) simp
    then show ?thesis
      using v by simp
  qed
  show ?thesis
    using b c by (simp add: scaled_crps_formula)
qed

theorem scaled_crps_perfect_forecast_witness:
  "scaled_crps (mk [2] [Fin 3, Fin 1]) (perfect_forecast (mk [2] [Fin 3, Fin 1]) 2)
      [Fin (1 / 2), Fin (1 / 10)] None None = Inr (mk [] [Fin 0])
   \<and> perfect_forecast (mk [2] [Fin 3, Fin 1]) 2 = mk [2, 2] [Fin 3, Fin 3, Fin 1, Fin 1]"
proof -
  have p: "perfect_forecast (mk [2] [Fin 3, Fin 1]) 2 = mk [2, 2] [Fin 3, Fin 3, Fin 1, Fin 1]"
    by code_simp
  have len: "length [Fin (1 / 2), Fin (1 / 10)] = 2"
    by simp
  have t: "scaled_crps (mk [2] [Fin 3, Fin 1])
      (perfect_forecast (mk [2] [Fin 3, Fin 1]) (length [Fin (1 / 2), Fin (1 / 10)]))
      [Fin (1 / 2), Fin (1 / 10)] None None = Inr (mk [] [Fin 0])"
    using scaled_crps_perfect_forecast [of "mk [2] [Fin 3, Fin 1]"
        "[Fin (1 / 2), Fin (1 / 10)]" None, THEN conjunct2, THEN conjunct2]
    by simp
  show ?thesis
    using t [unfolded len] p by simp
qed

section \<open>NaN entries in the aggregates\<close>

lemma excludes_nan_reduce:
  assumes "nan_reduce v weights axis = Inr m" "wellformed v" "\<forall>e \<in> set (data v). not_negative e"
    and "weights = None \<or> (\<exists>w. weights = Some w \<and> wellformed w \<and> shape w = shape v)"
    and g: "\<And>x. pos_inf x \<Longrightarrow> \<not> isnan (g x)"
  shows "excludes_nan g v weights axis (amap g m)"
proof (cases weights)
  case None
  note u = nan_reduce_unweighted [OF assms(1) [unfolded None] assms(2,3)]
  have "nanmean_lane l = fdiv (fsum (filter (\<lambda>e. \<not> isnan e) l))
      (Fin (real (length (filter (\<lambda>e. \<not> isnan e) l))))" for l
    by (simp add: nanmean_lane_def mean_def fcount_def)
  then show ?thesis
    using u g by (simp add: excludes_nan_def None)
next
  case (Some w)
  then have w: "wellformed w" "shape w = shape v"
    using assms(4) by auto
  have m: "m = mk [] [weighted_lane (kept (data v) (data v), kept (data w) (data v))]"
    using assms(1) [unfolded Some] assms(2) w by (rule nan_reduce_weighted)
  have len: "length (data w) = length (data v)"
    using assms(2) w by (simp add: wellformed_def)
  have "\<not> isnan (g (weighted_lane (kept (data v) (data v), kept (data w) (data v))))"
    if "\<forall>x \<in> set (data w). positive x" "\<exists>e \<in> set (data v). \<not> isnan e"
    using weighted_kept_pos_inf [OF len assms(3) that] by (rule g)
  then show ?thesis
    using m by (auto simp: excludes_nan_def Some amap_def weighted_lane_def)
qed

lemma family_excludes:
  assumes "wellformed y" "wellformed y_hat" "shape y_hat = shape y"
    and "weights = None \<or> (\<exists>w. weights = Some w \<and> wellformed w)"
    and e: "\<And>x. not_negative (e x)"
    and g: "\<And>x. pos_inf x \<Longrightarrow> \<not> isnan (g x)"
    and m: "bind (metric_protections y y_hat weights) (\<lambda>_.
           bind (binop fsub y y_hat) (\<lambda>d. nan_reduce (amap e d) weights axis)) = Inr m"
  shows "excludes_nan g (errors e y y_hat) weights axis (amap g m)"
proof (rule excludes_nan_reduce)
  show "nan_reduce (errors e y y_hat) weights axis = Inr m"
    using assms(1-3) m by (rule family_as_reduce)
  show "wellformed (errors e y y_hat)"
    using assms(1-3) by simp
  show "\<forall>x \<in> set (data (errors e y y_hat)). not_negative x"
    by (rule errors_elements) (rule e)
  show "weights = None \<or> (\<exists>w. weights = Some w \<and> wellformed w \<and> shape w = shape (errors e y y_hat))"
    using assms(4) family_as_reduce(2) [OF assms(1-3) m] by auto
  show "pos_inf x \<Longrightarrow> \<not> isnan (g x)" for x
    by (rule g)
qed

lemma clean_quotient:
  assumes "not_negative u" "not_negative v"
  shows "(case fdiv u v of NaN \<Rightarrow> Fin 0 | PInf \<Rightarrow> Fin 0 | NInf \<Rightarrow> NInf | Fin r \<Rightarrow> Fin r)
    = zero_if_undefined (fdiv u v)"
  using nn_fdiv [OF assms] by (cases "fdiv u v") (simp_all add: zero_if_undefined_def)

lemma ratios_props [simp]:
  "shape (ratios f y y_hat) = shape y"
  "data (ratios f y y_hat) = map2 f (data y) (data y_hat)"
  by (simp_all add: ratios_def)

lemma safe_ratios:
  assumes "wellformed y" "wellformed y_hat" "shape y_hat = shape y"
    and "wellformed scale" "shape scale = shape y"
    and "binop fsub y y_hat = Inr d"
    and "divide_no_nan (amap fabs d) scale = Inr ratio"
    and "\<forall>x \<in> set (data scale). not_negative x"
    and "\<And>i. i < length (data y) \<Longrightarrow>
           zero_if_undefined (fdiv (fabs (fsub (data y ! i) (data y_hat ! i))) (data scale ! i))
           = f (data y ! i) (data y_hat ! i)"
  shows "ratio = ratios f y y_hat"
proof -
  let ?c = "\<lambda>x y. case fdiv x y of NaN \<Rightarrow> Fin 0 | PInf \<Rightarrow> Fin 0 | NInf \<Rightarrow> NInf | Fin r \<Rightarrow> Fin r"
  have len: "length (data y_hat) = length (data y)" "length (data scale) = length (data y)"
    "length (data y) = prod_list (shape y)"
    using assms(1-5) by (simp_all add: wellformed_def)
  have d: "d = mk (shape y) (map2 fsub (data y) (data y_hat))"
    using assms(1-3,6) by (simp add: binop_same)
  have wd: "wellformed (amap fabs d)" "shape (amap fabs d) = shape scale"
    using d len assms(5) by simp_all
  have r: "ratio = mk (shape y) (map2 ?c (data (amap fabs d)) (data scale))"
    using divide_no_nan_same [OF wd(1) assms(4) wd(2) assms(7)] d by simp
  have "map2 ?c (data (amap fabs d)) (data scale) = map2 f (data y) (data y_hat)"
  proof (rule nth_equalityI)
    show "length (map2 ?c (data (amap fabs d)) (data scale)) = length (map2 f (data y) (data y_hat))"
      using d len by simp
  next
    fix i assume "i < length (map2 ?c (data (amap fabs d)) (data scale))"
    then have i: "i < length (data y)"
      using d len by simp
    then have "not_negative (data scale ! i)"
      using assms(8) len(2) by simp
    then have "?c (fabs (fsub (data y ! i) (data y_hat ! i))) (data scale ! i)
        = zero_if_undefined (fdiv (fabs (fsub (data y ! i) (data y_hat ! i))) (data scale ! i))"
      by (intro clean_quotient nn_fabs)
    then show "map2 ?c (data (amap fabs d)) (data scale) ! i = map2 f (data y) (data y_hat) ! i"
      using i d len assms(9) [OF i] by simp
  qed
  then show ?thesis
    using r by (simp add: ratios_def)
qed

lemma mape_ratios:
  assumes "mape y y_hat weights axis = Inr r"
    and "wellformed y" "wellformed y_hat" "shape y_hat = shape y"
  shows "\<exists>m. np_average (ratios ape y y_hat) weights axis = Inr m \<and> r = amap (fmul (Fin 100)) m"
    and "weights = Some w \<Longrightarrow> shape w = shape y"
proof -
  from assms(1) obtain d ratio m where
    p: "metric_protections y y_hat weights = Inr ()"
    and d: "binop fsub y y_hat = Inr d"
    and ra: "divide_no_nan (amap fabs d) (amap fabs y) = Inr ratio"
    and m: "np_average ratio weights axis = Inr m"
    and r: "r = amap (fmul (Fin 100)) m"
    unfolding mape_def Let_def bind_Inr by auto
  have "ratio = ratios ape y y_hat"
    using assms(2-4) _ _ d ra
  proof (rule safe_ratios)
    show "wellformed (amap fabs y)" "shape (amap fabs y) = shape y"
      using assms(2) by (simp_all add: wellformed_def)
    show "\<forall>x \<in> set (data (amap fabs y)). not_negative x"
      by (simp add: nn_fabs)
    show "zero_if_undefined (fdiv (fabs (fsub (data y ! i) (data y_hat ! i)))
            (data (amap fabs y) ! i)) = ape (data y ! i) (data y_hat ! i)"
      if "i < length (data y)" for i
      using that by (simp add: ape_def)
  qed
  then show "\<exists>m. np_average (ratios ape y y_hat) weights axis = Inr m
      \<and> r = amap (fmul (Fin 100)) m"
    using m r by blast
  show "shape w = shape y" if "weights = Some w"
    using p unfolding that by (rule metric_protections_ok)
qed

lemma smape_ratios:
  assumes "smape y y_hat weights axis = Inr r"
    and "wellformed y" "wellformed y_hat" "shape y_hat = shape y"
  shows "\<exists>m. np_average (ratios sape y y_hat) weights axis = Inr m \<and> r = amap (fmul (Fin 200)) m"
    and "weights = Some w \<Longrightarrow> shape w = shape y"
proof -
  from assms(1) obtain d scale ratio m where
    p: "metric_protections y y_hat weights = Inr ()"
    and d: "binop fsub y y_hat = Inr d"
    and sc: "binop fadd (amap fabs y) (amap fabs y_hat) = Inr scale"
    and ra: "divide_no_nan (amap fabs d) scale = Inr ratio"
    and m: "np_average ratio weights axis = Inr m"
    and r: "r = amap (fmul (Fin 200)) m"
    by (rule smape_steps)
  have len: "length (data y_hat) = length (data y)" "length (data y) = prod_list (shape y)"
    using assms(2-4) by (simp_all add: wellformed_def)
  have sc': "scale = mk (shape y) (map2 fadd (map fabs (data y)) (map fabs (data y_hat)))"
    using sc assms(2-4) by (simp add: binop_same)
  have "ratio = ratios sape y y_hat"
    using assms(2-4) _ _ d ra
  proof (rule safe_ratios)
    show "wellformed scale" "shape scale = shape y"
      using sc' len by simp_all
    show "\<forall>x \<in> set (data scale). not_negative x"
      unfolding sc' data_mk
      by (rule nn_map2 [where P = not_negative and Q = not_negative])
        (auto simp: nn_fabs nn_fadd)
    show "zero_if_undefined (fdiv (fabs (fsub (data y ! i) (data y_hat ! i))) (data scale ! i))
        = sape (data y ! i) (data y_hat ! i)"
      if "i < length (data y)" for i
      using that len by (simp add: sape_def sc')
  qed
  then show "\<exists>m. np_average (ratios sape y y_hat) weights axis = Inr m
      \<and> r = amap (fmul (Fin 200)) m"
    using m r by blast
  show "shape w = shape y" if "weights = Some w"
    using p unfolding that by (rule metric_protections_ok)
qed

lemma ratio_nan_zero:
  "isnan a \<or> isnan b \<Longrightarrow> ape a b = Fin 0"
  "isnan a \<or> isnan b \<Longrightarrow> sape a b = Fin 0"
  by (cases a; cases b; simp add: ape_def sape_def zero_if_undefined_def fsub_def)+

lemma ratio_finite: "isfinite (ape a b)" "isfinite (sape a b)"
  by (simp_all add: ape_def sape_def zero_if_undefined_def)

lemma counts_from_average:
  assumes "wellformed y" "wellformed y_hat" "shape y_hat = shape y"
    and nan: "\<And>a b. isnan a \<or> isnan b \<Longrightarrow> f a b = Fin 0"
    and fin: "\<And>a b. isfinite (f a b)"
    and avg: "np_average (ratios f y y_hat) weights axis = Inr m"
    and w: "weights = None \<or> (\<exists>w. weights = Some w \<and> wellformed w \<and> shape w = shape y)"
  shows "counts_nan_as_zero f c y y_hat weights axis (amap (fmul (Fin c)) m)"
proof -
  let ?ra = "ratios f y y_hat"
  have len: "length (data y_hat) = length (data y)" "length (data y) = prod_list (shape y)"
    using assms(1-3) by (simp_all add: wellformed_def)
  have wr: "wellformed ?ra" "\<forall>x \<in> set (data ?ra). isfinite x"
    using len fin by (auto simp: wellformed_def)
  have a: "data ?ra ! i = Fin 0"
    if "i < length (data y)" "isnan (data y ! i) \<or> isnan (data y_hat ! i)" for i
    using that len nan by simp
  have nn: "\<forall>x \<in> set (data (amap (fmul (Fin c)) m)). \<not> isnan x"
    if "\<forall>x \<in> set (data m). isfinite x"
  proof -
    have "\<not> isnan (fmul (Fin c) x)" if "isfinite x" for x
      using that by (cases x) simp_all
    then show ?thesis
      using that by simp
  qed
  show ?thesis
  proof (cases weights)
    case None
    have d: "data m = map mean (slices axis ?ra)"
      using avg None by (simp add: np_average_unweighted reduce_data)
    have "data (amap (fmul (Fin c)) m)
        = map (\<lambda>l. fmul (Fin c) (fdiv (fsum l) (Fin (real (length l))))) (slices axis ?ra)"
      using d by (simp add: mean_def fcount_def)
    moreover have "\<forall>x \<in> set (data (amap (fmul (Fin c)) m)). \<not> isnan x" if "data y \<noteq> []"
    proof (rule nn, rule finite_np_average [OF avg wr])
      show "weights = None \<longrightarrow> data ?ra \<noteq> []"
        using that len by auto
      show "\<forall>w. weights = Some w \<longrightarrow> wellformed w \<and> shape w = shape ?ra
           \<and> (\<forall>v \<in> set (data w). isfinite v)"
        using None by simp
    qed
    ultimately show ?thesis
      using a avg None by (auto simp: counts_nan_as_zero_def)
  next
    case (Some w0)
    then have w0: "wellformed w0" "shape w0 = shape y"
      using w by auto
    have "\<forall>x \<in> set (data (amap (fmul (Fin c)) m)). \<not> isnan x"
      if "\<forall>x \<in> set (data w0). isfinite x \<and> not_negative x"
    proof (rule nn, rule finite_np_average [OF avg wr])
      show "weights = None \<longrightarrow> data ?ra \<noteq> []"
        using Some by simp
      show "\<forall>w. weights = Some w \<longrightarrow> wellformed w \<and> shape w = shape ?ra
           \<and> (\<forall>v \<in> set (data w). isfinite v)"
        using Some w0 that by simp
    qed
    then show ?thesis
      using a avg Some by (auto simp: counts_nan_as_zero_def)
  qed
qed


lemma nth_concat_uniform:
  "out < outer \<Longrightarrow> i < inner \<Longrightarrow>
   concat (map (\<lambda>u. map (g u) [0..<inner]) [0..<outer]) ! (out * inner + i) = g out i"
proof (induction outer)
  case 0
  then show ?case by simp
next
  case (Suc n)
  have len: "length (concat (map (\<lambda>u. map (g u) [0..<inner]) [0..<n])) = n * inner"
    by (simp add: length_concat comp_def sum_list_triv)
  show ?case
  proof (cases "out < n")
    case True
    have "out * inner + i < out * inner + inner"
      using Suc.prems(2) by simp
    also have "\<dots> = (out + 1) * inner"
      by simp
    also have "\<dots> \<le> n * inner"
      using True by (intro mult_le_mono1) simp
    finally have "out * inner + i < n * inner" .
    then show ?thesis
      using Suc.IH [OF True Suc.prems(2)] len by (simp add: nth_append)
  next
    case False
    then have "out = n"
      using Suc.prems(1) by simp
    then show ?thesis
      using len Suc.prems(2) by (simp add: nth_append)
  qed
qed

lemma lanes_cover:
  assumes "idx < prod_list shp" "k < length shp"
  obtains a j where "a < prod_list (reduce_shape shp k)" "j < shp ! k"
    "\<And>zs. lanes shp k zs ! a ! j = zs ! idx"
proof -
  let ?outer = "prod_list (take k shp)" and ?len = "shp ! k"
  let ?inner = "prod_list (drop (Suc k) shp)"
  have bound: "idx < ?outer * ?len * ?inner"
    using assms prod_list_split [OF assms(2)] by simp
  then have pos: "0 < ?inner" "0 < ?len"
    by (cases "?inner = 0"; cases "?len = 0"; simp)+
  let ?i = "idx mod ?inner" and ?q = "idx div ?inner"
  let ?j = "?q mod ?len" and ?out = "?q div ?len"
  have i: "?i < ?inner" and j: "?j < ?len"
    using pos by simp_all
  have "?q < ?outer * ?len"
    using bound by (simp add: less_mult_imp_div_less)
  then have out: "?out < ?outer"
    by (simp add: less_mult_imp_div_less)
  have "?out * ?len + ?j = ?q"
    by (rule div_mult_mod_eq)
  then have idx: "(?out * ?len + ?j) * ?inner + ?i = idx"
    by (simp only: div_mult_mod_eq)
  have a: "?out * ?inner + ?i < prod_list (reduce_shape shp k)"
  proof -
    have "?out * ?inner + ?i < ?out * ?inner + ?inner"
      using i by simp
    also have "\<dots> = (?out + 1) * ?inner"
      by simp
    also have "\<dots> \<le> ?outer * ?inner"
      using out by (intro mult_le_mono1) simp
    finally show ?thesis
      by (simp add: reduce_shape_def)
  qed
  have "lanes shp k zs ! (?out * ?inner + ?i) ! ?j = zs ! idx" for zs :: "'a list"
  proof -
    have "lanes shp k zs ! (?out * ?inner + ?i)
        = map (\<lambda>j. zs ! ((?out * ?len + j) * ?inner + ?i)) [0..<?len]"
      unfolding lanes_def Let_def using out i by (rule nth_concat_uniform)
    then show ?thesis
      using j idx by simp
  qed
  then show ?thesis
    using a j that by blast
qed

lemma fsum_nan: "NaN \<in> set xs \<Longrightarrow> fsum xs = NaN"
proof (induction xs)
  case Nil
  then show ?case by simp
next
  case (Cons x xs)
  then show ?case
    by (cases x; cases "fsum xs") auto
qed

lemma weighted_lane_nan:
  assumes "j < length xs" "j < length ws" "xs ! j = NaN"
  shows "weighted_lane (xs, ws) = NaN"
proof -
  have "map2 fmul xs ws ! j = NaN" "j < length (map2 fmul xs ws)"
    using assms by simp_all
  then have "NaN \<in> set (map2 fmul xs ws)"
    by (metis nth_mem)
  then show ?thesis
    by (simp add: weighted_lane_def fsum_nan)
qed

lemma average_nan:
  assumes "np_average l (Some w) axis = Inr r" "shape w = shape l" "wellformed l" "wellformed w"
    and "idx < length (data l)" "data l ! idx = NaN"
  shows "\<exists>x \<in> set (data r). isnan x" and "axis = None \<Longrightarrow> r = mk [] [NaN]"
proof -
  have len: "length (data w) = length (data l)" "length (data l) = prod_list (shape l)"
    using assms(2-4) by (simp_all add: wellformed_def)
  have n: "r = mk [] [NaN]" if "axis = None"
  proof -
    have "weighted [] [(data l, data w)] = Inr r"
      using assms(1,2) that by (simp add: np_average_def)
    then have "r = mk [] [weighted_lane (data l, data w)]"
      by (auto simp: weighted_def split: if_splits)
    then show ?thesis
      using weighted_lane_nan [of idx "data l" "data w"] assms(5,6) len by simp
  qed
  show "axis = None \<Longrightarrow> r = mk [] [NaN]"
    by (rule n)
  show "\<exists>x \<in> set (data r). isnan x"
  proof (cases axis)
    case None
    then show ?thesis
      using n by simp
  next
    case (Some ax)
    then obtain k where k: "normalize_axis (length (shape l)) ax = Inr k"
      and m: "weighted (reduce_shape (shape l) k)
               (zip (lanes (shape l) k (data l)) (lanes (shape l) k (data w))) = Inr r"
      using assms(1,2)
      by (cases "normalize_axis (length (shape l)) ax") (auto simp: np_average_def bind_def)
    have kl: "k < length (shape l)"
      using k by (rule normalize_axis_less)
    have il: "idx < prod_list (shape l)"
      using assms(5) len by simp
    obtain a j where a: "a < prod_list (reduce_shape (shape l) k)" and j: "j < shape l ! k"
      and at: "\<And>zs :: float list. lanes (shape l) k zs ! a ! j = zs ! idx"
      using il kl by (rule lanes_cover) (rule that)
    let ?L = "lanes (shape l) k (data l)" and ?W = "lanes (shape l) k (data w)"
    have al: "a < length ?L" "a < length ?W"
      using a by (simp_all add: lanes_length)
    have "length (?L ! a) = shape l ! k" "length (?W ! a) = shape l ! k"
      using lanes_lengths [OF nth_mem [OF al(1)]] lanes_lengths [OF nth_mem [OF al(2)]]
      by simp_all
    then have "weighted_lane (?L ! a, ?W ! a) = NaN"
      using j at [of "data l"] assms(6) by (intro weighted_lane_nan [of j]) simp_all
    moreover have "data r = map weighted_lane (zip ?L ?W)"
      using m by (rule weighted_data)
    ultimately have "data r ! a = NaN" "a < length (data r)"
      using al by simp_all
    then have "NaN \<in> set (data r)"
      by (metis nth_mem)
    then show ?thesis
      by (rule bexI [rotated]) simp
  qed
qed

lemma binop_nan_right:
  assumes "binop f a b = Inr r" "broadcast_shapes (shape a) (shape b) = Some (shape b)"
    and "wellformed b" "idx < length (data b)" "data b ! idx = NaN"
    and "\<And>x. f x NaN = NaN"
  shows "shape r = shape b" "wellformed r" "data r ! idx = NaN"
proof -
  have r: "r = mk (shape b)
      (map2 f (data (broadcast_to (shape b) a)) (data (broadcast_to (shape b) b)))"
    using assms(1,2) by (simp add: binop_def)
  show "shape r = shape b"
    using r by simp
  show "wellformed r"
    using assms(1) by (rule binop_wellformed)
  have "idx < length (data (broadcast_to (shape b) a))"
    using assms(3,4) by (simp add: broadcast_to_def wellformed_def)
  then show "data r ! idx = NaN"
    using r assms(3-6) broadcast_to_same [OF assms(3)] by simp
qed

lemma mqloss_nan:
  assumes "mqloss y y_q qs weights axis = Inr r"
    and "wellformed y" "wellformed y_q" "shape y_q = shape y @ [length qs]" "qs \<noteq> []"
    and "weights = None \<or> (\<exists>w. weights = Some w \<and> wellformed w)"
    and "i < length (data y)" "isnan (data y ! i)"
  shows "\<exists>x \<in> set (data r). isnan x" and "axis = None \<Longrightarrow> r = mk [] [NaN]"
proof -
  let ?n = "length qs" and ?t = "shape y @ [length qs]"
  let ?rep = "concat (map (replicate ?n) (data y))"
  from assms(1) obtain w err lo hi l where
    w: "w = (case weights of None \<Rightarrow> ones (shape y) | Some w \<Rightarrow> w)"
    and p: "metric_protections y y_q (Some w) = Inr ()"
    and e: "binop fsub (expand_dims_last y) y_q = Inr err"
    and lo: "binop fmul (mk [?n] qs) err = Inr lo"
    and hi: "binop fmul (amap (\<lambda>q. fsub q (Fin 1)) (mk [?n] qs)) err = Inr hi"
    and l: "binop fmaximum lo hi = Inr l"
    and a: "np_average l (Some (repeat_last ?n (expand_dims_last w))) axis = Inr r"
    by (rule mqloss_steps)
  have ly: "length (data y) = prod_list (shape y)"
    using assms(2) by (simp add: wellformed_def)
  have lq: "length (data y_q) = length (data y) * ?n"
    using assms(3,4) ly by (simp add: wellformed_def)
  have n: "0 < ?n"
    using assms(5) by simp
  let ?k = "i * ?n"
  have k: "?k < length (data y) * ?n"
    using assms(7) n by simp
  have yk: "?rep ! ?k = NaN"
    using nth_repeated [OF k] n assms(8) by (cases "data y ! i") simp_all
  have bq: "broadcast_to ?t y_q = mk ?t (data y_q)"
    using broadcast_to_same [OF assms(3)] assms(4) by simp
  have "err = mk ?t (map2 fsub ?rep (data y_q))"
    using e assms(4) bq broadcast_expanded [OF assms(2), of ?n]
    by (simp add: binop_def expand_dims_last_def broadcast_shapes_last)
  then have err: "shape err = ?t" "wellformed err" "?k < length (data err)" "data err ! ?k = NaN"
    using binop_wellformed [OF e] k lq yk by (simp_all add: length_repeated fsub_def)
  have fm: "fmul x NaN = NaN" for x
    by (cases x) simp_all
  have fx: "fmaximum x NaN = NaN" for x
    by (cases x) simp_all
  have los: "shape lo = shape err" "wellformed lo" "data lo ! ?k = NaN"
    using lo _ err(2,3,4) fm
    by (rule binop_nan_right; simp add: err(1) broadcast_shapes_last)+
  have his: "shape hi = shape err" "wellformed hi" "data hi ! ?k = NaN"
    using hi _ err(2,3,4) fm
    by (rule binop_nan_right; simp add: err(1) broadcast_shapes_last)+
  have kh: "?k < length (data hi)"
    using his(1,2) err(1,2,3) by (simp add: wellformed_def)
  have ls: "shape l = shape hi" "wellformed l" "data l ! ?k = NaN"
    using l _ his(2) kh his(3) fx
    by (rule binop_nan_right; simp add: los(1) his(1) broadcast_shapes_same)+
  have kl: "?k < length (data l)"
    using ls(1,2) his(1,2) kh by (simp add: wellformed_def)
  have sw: "shape w = shape y"
    using p by (rule metric_protections_ok)
  have ww: "wellformed w"
    using assms(6) w by auto
  let ?w = "repeat_last ?n (expand_dims_last w)"
  have wr: "shape ?w = shape l" "wellformed ?w"
    using sw ww ls(1) his(1) err(1) by (simp_all add: repeat_expand length_repeated wellformed_def)
  show "\<exists>x \<in> set (data r). isnan x"
    using a wr(1) ls(2) wr(2) kl ls(3) by (rule average_nan)
  show "r = mk [] [NaN]" if "axis = None"
    using a wr(1) ls(2) wr(2) kl ls(3) that by (rule average_nan)
qed

lemma scaled_crps_nan:
  assumes "scaled_crps y y_q qs weights axis = Inr r"
    and "wellformed y" "wellformed y_q" "shape y_q = shape y @ [length qs]" "qs \<noteq> []"
    and "weights = None \<or> (\<exists>w. weights = Some w \<and> wellformed w)"
    and "i < length (data y)" "isnan (data y ! i)"
  shows "\<exists>x \<in> set (data r). isnan x" and "axis = None \<Longrightarrow> r = mk [] [NaN]"
proof -
  let ?f = "\<lambda>l. fdiv (fmul (fmul (Fin 2) l) (Fin (real (prod_list (shape y)))))
                            (fadd (fsum (map fabs (data y))) eps)"
  from assms(1) obtain m where m: "mqloss y y_q qs weights axis = Inr m" and r: "r = amap ?f m"
    unfolding scaled_crps_formula bind_Inr by auto
  have f: "?f NaN = NaN"
    by simp
  note n = mqloss_nan [OF m assms(2-8)]
  from n(1) obtain x where "x \<in> set (data m)" "x = NaN"
    by (metis isnan.elims(2))
  then have "NaN \<in> set (data r)"
    unfolding r using f by (auto simp: amap_def image_iff intro!: bexI [of _ NaN])
  then show "\<exists>x \<in> set (data r). isnan x"
    by (rule bexI [rotated]) simp
  show "r = mk [] [NaN]" if "axis = None"
    using n(2) [OF that] r f by (simp add: amap_def)
qed

text \<open>
  C3 as stated fails for \<^verbatim>\<open>mqloss\<close> and \<^verbatim>\<open>scaled_crps\<close>: their average is a plain
  weighted \<^verbatim>\<open>np.average\<close> of the pinball losses, and one NaN observation makes the
  aggregate NaN.
\<close>

theorem mqloss_propagates_nan:
  "mqloss (mk [2] [NaN, Fin 1]) (mk [2, 1] [Fin 1, Fin 1]) [Fin (1 / 2)] None None
     = Inr (mk [] [NaN])
   \<and> scaled_crps (mk [2] [NaN, Fin 1]) (mk [2, 1] [Fin 1, Fin 1]) [Fin (1 / 2)] None None
     = Inr (mk [] [NaN])"
  by code_simp

text \<open>
  C3, amended. For arrays \<open>y\<close>, \<open>y_hat\<close> of one shape, \<^verbatim>\<open>mae\<close>, \<^verbatim>\<open>mse\<close>,
  \<^verbatim>\<open>rmse\<close> and \<^verbatim>\<open>quantile_loss\<close> (for a quantile in \<open>[0, 1]\<close>) exclude the NaN
  errors from the average: the result is the sum of the non-NaN errors divided by
  their number or, with weights, their weighted sum divided by the sum of their
  weights; without weights it is not NaN unless a whole reduced slice is NaN, and with
  positive weights of a finite sum it is not NaN unless every error is NaN.
  \<^verbatim>\<open>mape\<close> and \<^verbatim>\<open>smape\<close> do not exclude a NaN ratio but count it as 0.0: the
  result is 100 (200) times the average of the ratios after safe division, which hold
  0.0 wherever \<open>y\<close> or \<open>y_hat\<close> is NaN; without weights and on non-empty input no
  element of it is NaN. \<^verbatim>\<open>mqloss\<close> and \<^verbatim>\<open>scaled_crps\<close> exclude nothing: when an
  entry of \<open>y\<close> is NaN, some element of a returned result is NaN, and with the default
  axis the result is NaN.
\<close>

theorem nan_entries_excluded:
  assumes "wellformed y" "wellformed y_hat" "shape y_hat = shape y"
    and "weights = None \<or> (\<exists>w. weights = Some w \<and> wellformed w)"
    and "0 \<le> q" "q \<le> 1"
  shows "(mae y y_hat weights axis = Inr r \<longrightarrow>
            excludes_nan (\<lambda>x. x) (errors fabs y y_hat) weights axis r)
    \<and> (mse y y_hat weights axis = Inr r \<longrightarrow>
            excludes_nan (\<lambda>x. x) (errors fsquare y y_hat) weights axis r)
    \<and> (rmse y y_hat weights axis = Inr r \<longrightarrow>
            excludes_nan fsqrt (errors fsquare y y_hat) weights axis r)
    \<and> (quantile_loss y y_hat (Fin q) weights axis = Inr r \<longrightarrow>
            excludes_nan (\<lambda>x. x) (errors (pinball (Fin q)) y y_hat) weights axis r)
    \<and> (mape y y_hat weights axis = Inr r \<longrightarrow>
            counts_nan_as_zero ape 100 y y_hat weights axis r)
    \<and> (smape y y_hat weights axis = Inr r \<longrightarrow>
            counts_nan_as_zero sape 200 y y_hat weights axis r)
    \<and> ((\<exists>i < length (data y). isnan (data y ! i))
         \<and> wellformed y_q \<and> shape y_q = shape y @ [length qs] \<and> qs \<noteq> [] \<longrightarrow>
         (mqloss y y_q qs weights axis = Inr r \<longrightarrow>
            (\<exists>x \<in> set (data r). isnan x) \<and> (axis = None \<longrightarrow> r = mk [] [NaN]))
         \<and> (scaled_crps y y_q qs weights axis = Inr r \<longrightarrow>
            (\<exists>x \<in> set (data r). isnan x) \<and> (axis = None \<longrightarrow> r = mk [] [NaN])))"
proof -
  have idg: "\<not> isnan ((\<lambda>x. x) v)" if "pos_inf v" for v
    using that by (rule pos_inf_not_nan)
  have sq: "\<not> isnan (fsqrt v)" if "pos_inf v" for v
    using that by (cases v) simp_all
  have a: "excludes_nan (\<lambda>x. x) (errors fabs y y_hat) weights axis r"
    if h: "mae y y_hat weights axis = Inr r"
  proof -
    have "excludes_nan (\<lambda>x. x) (errors fabs y y_hat) weights axis (amap (\<lambda>x. x) r)"
      using assms(1-4) nn_fabs idg h [unfolded mae_def Let_def] by (rule family_excludes)
    then show ?thesis
      by (simp only: amap_ident)
  qed
  have b: "excludes_nan (\<lambda>x. x) (errors fsquare y y_hat) weights axis r"
    if h: "mse y y_hat weights axis = Inr r"
  proof -
    have "excludes_nan (\<lambda>x. x) (errors fsquare y y_hat) weights axis (amap (\<lambda>x. x) r)"
      using assms(1-4) nn_fsquare idg h [unfolded mse_def Let_def] by (rule family_excludes)
    then show ?thesis
      by (simp only: amap_ident)
  qed
  have c: "excludes_nan fsqrt (errors fsquare y y_hat) weights axis r"
    if h: "rmse y y_hat weights axis = Inr r"
  proof -
    from h obtain m where m: "mse y y_hat weights axis = Inr m" and r: "r = amap fsqrt m"
      unfolding rmse_def bind_Inr by auto
    show ?thesis
      unfolding r
      using assms(1-4) nn_fsquare sq m [unfolded mse_def Let_def] by (rule family_excludes)
  qed
  have d: "excludes_nan (\<lambda>x. x) (errors (pinball (Fin q)) y y_hat) weights axis r"
    if h: "quantile_loss y y_hat (Fin q) weights axis = Inr r"
  proof -
    have "excludes_nan (\<lambda>x. x) (errors (pinball (Fin q)) y y_hat) weights axis (amap (\<lambda>x. x) r)"
      using assms(1-4) nn_pinball [OF assms(5,6)] idg h [unfolded quantile_loss_def Let_def]
      by (rule family_excludes)
    then show ?thesis
      by (simp only: amap_ident)
  qed
  have e: "counts_nan_as_zero ape 100 y y_hat weights axis r"
    if h: "mape y y_hat weights axis = Inr r"
  proof -
    obtain m where m: "np_average (ratios ape y y_hat) weights axis = Inr m"
      and r: "r = amap (fmul (Fin 100)) m"
      using mape_ratios(1) [OF h assms(1-3)] by blast
    have "weights = None \<or> (\<exists>w. weights = Some w \<and> wellformed w \<and> shape w = shape y)"
      using assms(4) mape_ratios(2) [OF h assms(1-3)] by auto
    then show ?thesis
      unfolding r using assms(1-3) ratio_nan_zero(1) ratio_finite(1) m
      by (intro counts_from_average)
  qed
  have f: "counts_nan_as_zero sape 200 y y_hat weights axis r"
    if h: "smape y y_hat weights axis = Inr r"
  proof -
    obtain m where m: "np_average (ratios sape y y_hat) weights axis = Inr m"
      and r: "r = amap (fmul (Fin 200)) m"
      using smape_ratios(1) [OF h assms(1-3)] by blast
    have "weights = None \<or> (\<exists>w. weights = Some w \<and> wellformed w \<and> shape w = shape y)"
      using assms(4) smape_ratios(2) [OF h assms(1-3)] by auto
    then show ?thesis
      unfolding r using assms(1-3) ratio_nan_zero(2) ratio_finite(2) m
      by (intro counts_from_average)
  qed
  have g: "(mqloss y y_q qs weights axis = Inr r \<longrightarrow>
            (\<exists>x \<in> set (data r). isnan x) \<and> (axis = None \<longrightarrow> r = mk [] [NaN]))
         \<and> (scaled_crps y y_q qs weights axis = Inr r \<longrightarrow>
            (\<exists>x \<in> set (data r). isnan x) \<and> (axis = None \<longrightarrow> r = mk [] [NaN]))"
    if h: "\<exists>i < length (data y). isnan (data y ! i)" "wellformed y_q"
      "shape y_q = shape y @ [length qs]" "qs \<noteq> []"
  proof -
    from h(1) obtain i where i: "i < length (data y)" "isnan (data y ! i)"
      by blast
    show ?thesis
      using mqloss_nan [OF _ assms(1) h(2-4) assms(4) i]
        scaled_crps_nan [OF _ assms(1) h(2-4) assms(4) i]
      by blast
  qed
  show ?thesis
    using a b c d e f g by blast
qed

theorem nan_entries_excluded_witness:
  "mae (mk [3] [Fin 3, NaN, Fin 1]) (mk [3] [Fin 0, Fin 0, Fin 0]) None None
     = Inr (mk [] [Fin 2])
   \<and> excludes_nan (\<lambda>x. x)
        (errors fabs (mk [3] [Fin 3, NaN, Fin 1]) (mk [3] [Fin 0, Fin 0, Fin 0]))
        None None (mk [] [Fin 2])
   \<and> mae (mk [3] [Fin 1, NaN, Fin 3]) (mk [3] [Fin 0, Fin 1, Fin 1])
        (Some (mk [3] [Fin 1, Fin 1, Fin 3])) None = Inr (mk [] [Fin (7 / 4)])
   \<and> excludes_nan (\<lambda>x. x)
        (errors fabs (mk [3] [Fin 1, NaN, Fin 3]) (mk [3] [Fin 0, Fin 1, Fin 1]))
        (Some (mk [3] [Fin 1, Fin 1, Fin 3])) None (mk [] [Fin (7 / 4)])
   \<and> mape (mk [2] [NaN, Fin 1]) (mk [2] [Fin 1, Fin 2]) None None = Inr (mk [] [Fin 50])
   \<and> counts_nan_as_zero ape 100 (mk [2] [NaN, Fin 1]) (mk [2] [Fin 1, Fin 2]) None None
        (mk [] [Fin 50])
   \<and> mqloss (mk [2] [NaN, Fin 1]) (mk [2, 1] [Fin 1, Fin 1]) [Fin (1 / 2)] None (Some 1)
        = Inr (mk [2] [NaN, Fin 0])
   \<and> (\<exists>x \<in> set (data (mk [2] [NaN, Fin 0 :: float])). isnan x)"
proof -
  let ?y = "mk [2] [NaN, Fin 1]" and ?y_q = "mk [2, 1] [Fin 1, Fin 1]"
  let ?r = "mk [2] [NaN, Fin 0]"
  have l: "mqloss ?y ?y_q [Fin (1 / 2)] None (Some 1) = Inr ?r"
    by code_simp
  have h: "\<exists>i < length (data ?y). isnan (data ?y ! i)"
    by (rule exI [of _ 0]) simp
  have "(\<exists>i < length (data ?y). isnan (data ?y ! i))
         \<and> wellformed ?y_q \<and> shape ?y_q = shape ?y @ [length [Fin (1 / 2)]]
         \<and> [Fin (1 / 2)] \<noteq> [] \<longrightarrow>
         (mqloss ?y ?y_q [Fin (1 / 2)] None (Some 1) = Inr ?r \<longrightarrow>
            (\<exists>x \<in> set (data ?r). isnan x) \<and> (Some 1 = (None :: int option) \<longrightarrow> ?r = mk [] [NaN]))
         \<and> (scaled_crps ?y ?y_q [Fin (1 / 2)] None (Some 1) = Inr ?r \<longrightarrow>
            (\<exists>x \<in> set (data ?r). isnan x) \<and> (Some 1 = (None :: int option) \<longrightarrow> ?r = mk [] [NaN]))"
    by (rule nan_entries_excluded [where q = "1 / 2" and y_hat = ?y, THEN conjunct2,
          THEN conjunct2, THEN conjunct2, THEN conjunct2, THEN conjunct2, THEN conjunct2])
      simp_all
  then have el: "\<exists>x \<in> set (data ?r). isnan x"
    using h l by simp
  have m: "mae (mk [3] [Fin 3, NaN, Fin 1]) (mk [3] [Fin 0, Fin 0, Fin 0]) None None
      = Inr (mk [] [Fin 2])"
    by code_simp
  have w: "mae (mk [3] [Fin 1, NaN, Fin 3]) (mk [3] [Fin 0, Fin 1, Fin 1])
        (Some (mk [3] [Fin 1, Fin 1, Fin 3])) None = Inr (mk [] [Fin (7 / 4)])"
    by code_simp
  have p: "mape (mk [2] [NaN, Fin 1]) (mk [2] [Fin 1, Fin 2]) None None = Inr (mk [] [Fin 50])"
    by code_simp
  have "mae (mk [3] [Fin 3, NaN, Fin 1]) (mk [3] [Fin 0, Fin 0, Fin 0]) None None
      = Inr (mk [] [Fin 2]) \<longrightarrow>
    excludes_nan (\<lambda>x. x)
      (errors fabs (mk [3] [Fin 3, NaN, Fin 1]) (mk [3] [Fin 0, Fin 0, Fin 0]))
      None None (mk [] [Fin 2])"
    by (rule nan_entries_excluded [where q = "1 / 2", THEN conjunct1]) simp_all
  then have em: "excludes_nan (\<lambda>x. x)
      (errors fabs (mk [3] [Fin 3, NaN, Fin 1]) (mk [3] [Fin 0, Fin 0, Fin 0]))
      None None (mk [] [Fin 2])"
    by (rule mp) (rule m)
  have "mae (mk [3] [Fin 1, NaN, Fin 3]) (mk [3] [Fin 0, Fin 1, Fin 1])
        (Some (mk [3] [Fin 1, Fin 1, Fin 3])) None = Inr (mk [] [Fin (7 / 4)]) \<longrightarrow>
    excludes_nan (\<lambda>x. x)
      (errors fabs (mk [3] [Fin 1, NaN, Fin 3]) (mk [3] [Fin 0, Fin 1, Fin 1]))
      (Some (mk [3] [Fin 1, Fin 1, Fin 3])) None (mk [] [Fin (7 / 4)])"
    by (rule nan_entries_excluded [where q = "1 / 2", THEN conjunct1]) simp_all
  then have ew: "excludes_nan (\<lambda>x. x)
      (errors fabs (mk [3] [Fin 1, NaN, Fin 3]) (mk [3] [Fin 0, Fin 1, Fin 1]))
      (Some (mk [3] [Fin 1, Fin 1, Fin 3])) None (mk [] [Fin (7 / 4)])"
    by (rule mp) (rule w)
  have "mape (mk [2] [NaN, Fin 1]) (mk [2] [Fin 1, Fin 2]) None None = Inr (mk [] [Fin 50]) \<longrightarrow>
    counts_nan_as_zero ape 100 (mk [2] [NaN, Fin 1]) (mk [2] [Fin 1, Fin 2]) None None
      (mk [] [Fin 50])"
    by (rule nan_entries_excluded [where q = "1 / 2", THEN conjunct2, THEN conjunct2,
          THEN conjunct2, THEN conjunct2, THEN conjunct1]) simp_all
  then have ep: "counts_nan_as_zero ape 100 (mk [2] [NaN, Fin 1]) (mk [2] [Fin 1, Fin 2])
      None None (mk [] [Fin 50])"
    by (rule mp) (rule p)
  show ?thesis
    by (intro conjI) (fact m em w ew p ep l el)+
qed

end
